theory Spec2Isabelle
  imports Complex_Main
begin

section \<open>JavaScript numbers\<close>

text \<open>
  The typing engine is JavaScript, so every number is an IEEE 754 binary64 value and
  every \<^verbatim>\<open>+\<close>, \<^verbatim>\<open>*\<close> and \<^verbatim>\<open>/\<close> rounds its exact result to the nearest
  binary64 value, ties to the even significand. A finite binary64 value is a rational,
  so the model computes on \<^typ>\<open>rat\<close> and rounds explicitly after each operation.
  The exponent range is not bounded: overflow to infinity and gradual underflow do not
  occur for the magnitudes the engine handles (counts, milliseconds, percentages).
\<close>

definition round_half_even :: "rat \<Rightarrow> int" where
  "round_half_even x =
     (let f = \<lfloor>x\<rfloor>; d = x - of_int f
      in if d < 1/2 then f else if 1/2 < d then f + 1
         else if even f then f else f + 1)"

function bit_length :: "int \<Rightarrow> int" where
  "bit_length n = (if n \<le> 0 then 0 else 1 + bit_length (n div 2))"
  by pat_completeness auto
termination
  by (relation "measure nat") auto

declare bit_length.simps [simp del]

text \<open>The binary exponent \<open>e\<close> of a positive rational: \<open>2^e \<le> x < 2^(e+1)\<close>.\<close>

definition exponent_of :: "rat \<Rightarrow> int" where
  "exponent_of x =
     (let (a, b) = quotient_of x;
          d = bit_length a - bit_length b
      in if 2 powi d \<le> x then d else d - 1)"

text \<open>Rounding a positive rational to 53 significant bits.\<close>

definition round_pos :: "rat \<Rightarrow> rat" where
  "round_pos x =
     of_int (round_half_even (x * 2 powi (52 - exponent_of x))) * 2 powi (exponent_of x - 52)"

definition to_double :: "rat \<Rightarrow> rat" where
  "to_double x = (if x = 0 then 0 else if 0 < x then round_pos x else - round_pos (- x))"

definition dadd :: "rat \<Rightarrow> rat \<Rightarrow> rat" where
  "dadd a b = to_double (a + b)"

definition dmul :: "rat \<Rightarrow> rat \<Rightarrow> rat" where
  "dmul a b = to_double (a * b)"

text \<open>Every division of the engine is guarded by a check that the divisor is positive.\<close>

definition ddiv :: "rat \<Rightarrow> rat \<Rightarrow> rat" where
  "ddiv a b = to_double (a / b)"

text \<open>\<^verbatim>\<open>Math.round\<close> rounds to the nearest integer, a tie towards plus infinity.\<close>

definition Math_round :: "rat \<Rightarrow> int" where
  "Math_round x = \<lfloor>x + 1/2\<rfloor>"

definition Math_floor :: "rat \<Rightarrow> int" where
  "Math_floor x = \<lfloor>x\<rfloor>"

text \<open>
  \<^verbatim>\<open>x.toFixed(1)\<close> prints the decimal with one digit that is nearest to \<open>x\<close>, the
  larger of the two in a tie, the sign treated apart. The model keeps the number of
  tenths that is printed.
\<close>

definition toFixed1 :: "rat \<Rightarrow> int" where
  "toFixed1 x = (if x < 0 then - \<lfloor>(- x) * 10 + 1/2\<rfloor> else \<lfloor>x * 10 + 1/2\<rfloor>)"

text \<open>
  \<^verbatim>\<open>v || d\<close> on a numeric field: the default \<open>d\<close> replaces a missing field and
  also the number zero, which is falsy.
\<close>

definition or_default :: "int option \<Rightarrow> int \<Rightarrow> int" where
  "or_default v d = (case v of None \<Rightarrow> d | Some n \<Rightarrow> if n = 0 then d else n)"

section \<open>Strings and objects\<close>

text \<open>Strings are restricted to ASCII; \<^verbatim>\<open>toLowerCase\<close> then only moves A to Z.\<close>

definition lower_char :: "char \<Rightarrow> char" where
  "lower_char c =
     (let n = (of_char c :: nat) in if 65 \<le> n \<and> n \<le> 90 then char_of (n + 32) else c)"

definition upper_char :: "char \<Rightarrow> char" where
  "upper_char c =
     (let n = (of_char c :: nat) in if 97 \<le> n \<and> n \<le> 122 then char_of (n - 32) else c)"

definition toLowerCase :: "string \<Rightarrow> string" where
  "toLowerCase s = map lower_char s"

definition toUpperCase :: "string \<Rightarrow> string" where
  "toUpperCase s = map upper_char s"

fun join :: "string \<Rightarrow> string list \<Rightarrow> string" where
  "join sep [] = []"
| "join sep [x] = x"
| "join sep (x # y # ys) = x @ sep @ join sep (y # ys)"

text \<open>
  An object keyed by single characters is an association list in insertion order.
  Assigning to an existing key keeps its place; a new key goes to the end.
\<close>

type_synonym 'v jsobj = "(char \<times> 'v) list"

fun obj_put :: "char \<Rightarrow> 'v \<Rightarrow> 'v jsobj \<Rightarrow> 'v jsobj" where
  "obj_put k v [] = [(k, v)]"
| "obj_put k v ((k', v') # ps) = (if k' = k then (k, v) # ps else (k', v') # obj_put k v ps)"

text \<open>
  \<^verbatim>\<open>(o[k] || 0)\<close> on an object of counts. Counts and scores grow by 1 or 2 for each
  typed character, so they are integers that binary64 holds exactly; they are natural
  numbers here.
\<close>

definition count_of :: "nat jsobj \<Rightarrow> char \<Rightarrow> nat" where
  "count_of ob k = (case map_of ob k of None \<Rightarrow> 0 | Some n \<Rightarrow> n)"

text \<open>\<^verbatim>\<open>o[k] = (o[k] || 0) + w\<close>\<close>

definition obj_add :: "char \<Rightarrow> nat \<Rightarrow> nat jsobj \<Rightarrow> nat jsobj" where
  "obj_add k w ob = obj_put k (count_of ob k + w) ob"

text \<open>
  \<^verbatim>\<open>Object.keys\<close> and \<^verbatim>\<open>Object.entries\<close> list the keys that are array indices
  first, in ascending numeric order, and then the other keys in insertion order. Among
  one-character keys the array indices are the digits.
\<close>

definition is_index_key :: "char \<Rightarrow> bool" where
  "is_index_key c = (48 \<le> (of_char c :: nat) \<and> (of_char c :: nat) \<le> 57)"

definition Object_entries :: "'v jsobj \<Rightarrow> (char \<times> 'v) list" where
  "Object_entries ob =
     sort_key (\<lambda>p. (of_char (fst p) :: nat)) (filter (\<lambda>p. is_index_key (fst p)) ob)
     @ filter (\<lambda>p. \<not> is_index_key (fst p)) ob"

definition Object_keys :: "'v jsobj \<Rightarrow> char list" where
  "Object_keys ob = map fst (Object_entries ob)"

text \<open>
  \<^verbatim>\<open>keys.sort((a, b) => (c[b] || 0) - (c[a] || 0))\<close>: the sort is stable, so it is an
  insertion sort on the negated count.
\<close>

definition sort_desc :: "('a \<Rightarrow> nat) \<Rightarrow> 'a list \<Rightarrow> 'a list" where
  "sort_desc f xs = sort_key (\<lambda>x. - int (f x)) xs"

text \<open>\<^verbatim>\<open>a.slice(-k)\<close>: the last \<open>k\<close> elements, all of them when there are fewer.\<close>

definition slice_last :: "nat \<Rightarrow> 'a list \<Rightarrow> 'a list" where
  "slice_last k xs = drop (length xs - k) xs"

text \<open>
  \<^verbatim>\<open>arr[Math.floor(Math.random() * arr.length)]\<close>; the value of \<^verbatim>\<open>Math.random()\<close>
  is the parameter \<open>rnd\<close>. Reading outside the array gives \<^verbatim>\<open>undefined\<close>, here
  \<open>None\<close>.
\<close>

definition pickRandom :: "rat \<Rightarrow> 'a list \<Rightarrow> 'a option" where
  "pickRandom rnd arr =
     (let i = Math_floor (dmul rnd (of_nat (length arr)))
      in if 0 \<le> i \<and> i < int (length arr) then Some (arr ! nat i) else None)"

section \<open>Attempts\<close>

text \<open>
  One typed word. \<open>timeSpent\<close> and \<open>hesitations\<close> are integers when present (the
  client sends a difference of \<^verbatim>\<open>Date.now()\<close> values and a counter); the stored
  session schema has neither field, so both can be missing. A missing \<open>word\<close> or
  \<open>input\<close> is the empty string, which is what \<^verbatim>\<open>String(item.word || '')\<close> makes
  of it, and \<open>correct\<close> is the truth value of the field.
\<close>

record attempt =
  word :: string
  input :: string
  correct :: bool
  timeSpent :: "int option"
  hesitations :: "int option"

text \<open>
  What a caller can pass where an array of attempts is expected.

  \<^item> \<open>Missing\<close> is \<^verbatim>\<open>null\<close> or \<^verbatim>\<open>undefined\<close>.
  \<^item> \<open>NonArray truthy short\<close> is any other value that is no array: a boolean, a number,
    a string or a plain object. Such a value has none of \<^verbatim>\<open>filter\<close>, \<^verbatim>\<open>forEach\<close> and
    \<^verbatim>\<open>reduce\<close> as a function (the values come from a JSON request body or from a
    stored document), and the code looks at two more things only: whether the
    value is truthy (which decides \<^verbatim>\<open>value || []\<close>), and whether \<^verbatim>\<open>value.length < 3\<close>
    holds. The string \<^verbatim>\<open>''\<close> is \<open>NonArray False True\<close>, the values \<^verbatim>\<open>false\<close> and
    \<^verbatim>\<open>0\<close> are \<open>NonArray False False\<close>, the string \<^verbatim>\<open>'ab'\<close> is \<open>NonArray True True\<close>,
    and the object \<^verbatim>\<open>{}\<close> and the string \<^verbatim>\<open>'abcd'\<close> are \<open>NonArray True False\<close>.
  \<^item> \<open>Elements es\<close> is an array. An element \<open>None\<close> is \<^verbatim>\<open>null\<close> or \<^verbatim>\<open>undefined\<close>,
    of which no property can be read; any other element is \<open>Some\<close> of the attempt its
    properties give (a number or a string in the place of an attempt has none of the
    properties, and reads as the attempt with every field missing).
\<close>

datatype history_arg = Missing | NonArray bool bool | Elements "attempt option list"

text \<open>An array all of whose elements are attempt objects.\<close>

abbreviation Attempts :: "attempt list \<Rightarrow> history_arg" where
  "Attempts h \<equiv> Elements (map Some h)"

datatype js_error = TypeError

datatype tier = easy | medium | hard

text \<open>
  The elements of an array as the callbacks of \<^verbatim>\<open>filter\<close>, \<^verbatim>\<open>reduce\<close> and
  \<^verbatim>\<open>forEach\<close> see them: the first thing every callback of the typing functions does is
  to read a property of its element (\<^verbatim>\<open>r.correct\<close>, \<^verbatim>\<open>r.timeSpent\<close>, \<^verbatim>\<open>item.word\<close>),
  which throws a \<^verbatim>\<open>TypeError\<close> on \<^verbatim>\<open>null\<close> and \<^verbatim>\<open>undefined\<close>.
\<close>

fun objects :: "attempt option list \<Rightarrow> js_error + attempt list" where
  "objects [] = Inr []"
| "objects (None # es) = Inl TypeError"
| "objects (Some r # es) = (case objects es of Inl e \<Rightarrow> Inl e | Inr rs \<Rightarrow> Inr (r # rs))"

text \<open>\<^verbatim>\<open>target[i] || ''\<close> and \<^verbatim>\<open>typed[i] || ''\<close> for \<open>i\<close> below the longer length;
  \<open>None\<close> is the empty string read past the end.\<close>

fun align :: "string \<Rightarrow> string \<Rightarrow> (char option \<times> char option) list" where
  "align [] [] = []"
| "align (t # ts) [] = (Some t, None) # align ts []"
| "align [] (u # us) = (None, Some u) # align [] us"
| "align (t # ts) (u # us) = (Some t, Some u) # align ts us"

section \<open>Difficulty estimator\<close>

definition sum_field :: "(attempt \<Rightarrow> int option) \<Rightarrow> int \<Rightarrow> attempt list \<Rightarrow> rat" where
  "sum_field fld d rs = foldl (\<lambda>sum r. dadd sum (of_int (or_default (fld r) d))) 0 rs"

definition window_accuracy :: "attempt list \<Rightarrow> rat" where
  "window_accuracy last5 = ddiv (of_nat (length (filter correct last5))) (of_nat (length last5))"

definition window_avgTime :: "attempt list \<Rightarrow> rat" where
  "window_avgTime last5 = ddiv (sum_field timeSpent 5000 last5) (of_nat (length last5))"

definition window_avgHesitations :: "attempt list \<Rightarrow> rat" where
  "window_avgHesitations last5 = ddiv (sum_field hesitations 0 last5) (of_nat (length last5))"

definition calculateAdaptiveDifficulty :: "attempt list \<Rightarrow> tier" where
  "calculateAdaptiveDifficulty typingHistory =
     (if length typingHistory < 3 then medium
      else
        let last5 = slice_last 5 typingHistory;
            accuracy = window_accuracy last5;
            avgTime = window_avgTime last5;
            avgHesitations = window_avgHesitations last5
        in if to_double (4/5) \<le> accuracy \<and> avgTime < 5000 \<and> avgHesitations < 2 then hard
           else if accuracy < 1/2 \<or> 3 < avgHesitations \<or> 8000 < avgTime then easy
           else medium)"

text \<open>
  The same function on whatever the caller passes. Reading \<^verbatim>\<open>.length\<close> of \<^verbatim>\<open>null\<close>
  or \<^verbatim>\<open>undefined\<close> throws. A value that is no array returns \<^verbatim>\<open>'medium'\<close> when its
  \<^verbatim>\<open>length\<close> is below 3, as the string \<^verbatim>\<open>'ab'\<close> is; otherwise it throws, at the call
  of \<^verbatim>\<open>slice\<close> or, for a string, at the call of \<^verbatim>\<open>filter\<close> on the slice. An array of
  fewer than three elements returns \<^verbatim>\<open>'medium'\<close> whatever its elements are; a longer
  one throws when \<^verbatim>\<open>null\<close> or \<^verbatim>\<open>undefined\<close> is among its last five elements, at
  \<^verbatim>\<open>r.correct\<close>.
\<close>

definition calculateAdaptiveDifficulty_dyn :: "history_arg \<Rightarrow> js_error + tier" where
  "calculateAdaptiveDifficulty_dyn typingHistory =
     (case typingHistory of
        Missing \<Rightarrow> Inl TypeError
      | NonArray truthy short \<Rightarrow> if short then Inr medium else Inl TypeError
      | Elements es \<Rightarrow>
          if length es < 3 then Inr medium
          else
            (case objects (slice_last 5 es) of
               Inl e \<Rightarrow> Inl e
             | Inr last5 \<Rightarrow>
                 let accuracy = window_accuracy last5;
                     avgTime = window_avgTime last5;
                     avgHesitations = window_avgHesitations last5
                 in if to_double (4/5) \<le> accuracy \<and> avgTime < 5000 \<and> avgHesitations < 2
                    then Inr hard
                    else if accuracy < 1/2 \<or> 3 < avgHesitations \<or> 8000 < avgTime then Inr easy
                    else Inr medium))"

section \<open>Word bank\<close>

definition TYPING_WORDS :: "tier \<Rightarrow> string list" where
  "TYPING_WORDS t =
     (case t of
        easy \<Rightarrow>
          [''cat'', ''dog'', ''sun'', ''bed'', ''leg'', ''pie'', ''bee'', ''sea'', ''tea'', ''pea'',
           ''lip'', ''lid'', ''bib'', ''did'', ''dad'', ''bad'', ''pad'', ''lad'',
           ''bat'', ''pat'', ''tap'', ''nap'', ''pan'', ''man'', ''fan'', ''van'', ''jam'', ''yam'',
           ''sip'', ''lip'', ''tip'', ''dip'', ''pip'', ''rip'', ''zip'', ''mop'', ''pop'']
      | medium \<Rightarrow>
          [''bell'', ''dell'', ''pill'', ''bill'', ''peel'', ''deep'', ''beep'', ''peep'', ''pipe'',
           ''pale'', ''bale'', ''bail'', ''pail'', ''leap'', ''deal'',
           ''was'', ''saw'', ''no'', ''on'', ''top'', ''pot'', ''ten'', ''net'',
           ''thin'', ''chin'', ''ship'', ''shop'', ''cash'', ''dash'', ''wish'', ''fish'',
           ''mild'', ''wild'', ''kind'', ''mind'', ''bend'', ''lend'', ''send'', ''tend'']
      | hard \<Rightarrow>
          [''pedal'', ''piped'', ''biped'', ''belle'', ''bleed'', ''bled'', ''idle'', ''bide'',
           ''pile'', ''piled'', ''deli'', ''bead'', ''lied'', ''bile'',
           ''dared'', ''bread'', ''brand'', ''grand'', ''blend'', ''trend'', ''flipped'',
           ''dripped'', ''thick'', ''think'', ''thank'', ''chunk'', ''shrimp'', ''crash'',
           ''flash'', ''splash'', ''below'', ''elbow'', ''window'', ''yellow'', ''mirror'',
           ''pillow'', ''shadow'', ''follow''])"

text \<open>\<^verbatim>\<open>a.indexOf(v)\<close> for a value that occurs in \<open>a\<close>.\<close>

fun indexOf :: "'a list \<Rightarrow> 'a \<Rightarrow> nat" where
  "indexOf [] v = 0"
| "indexOf (x # xs) v = (if x = v then 0 else Suc (indexOf xs v))"

text \<open>\<^verbatim>\<open>a.filter((v, i, a) => a.indexOf(v) === i)\<close> keeps the first occurrence of a word.\<close>

definition dedupe :: "'a list \<Rightarrow> 'a list" where
  "dedupe a = map snd (filter (\<lambda>(i, v). indexOf a v = i) (enumerate 0 a))"

definition ALL_TYPING_WORDS :: "string list" where
  "ALL_TYPING_WORDS = dedupe (TYPING_WORDS easy @ TYPING_WORDS medium @ TYPING_WORDS hard)"

section \<open>Word selector\<close>

text \<open>The inner loop of \<^verbatim>\<open>getProblemLetterScores\<close> over the positions of one attempt.\<close>

definition score_positions ::
  "nat \<Rightarrow> (char option \<times> char option) list \<Rightarrow> nat jsobj \<Rightarrow> nat jsobj" where
  "score_positions weight ps letterScores =
     foldl (\<lambda>sc (t, u). case t of
                None \<Rightarrow> sc
              | Some c \<Rightarrow> if t \<noteq> u then obj_add c weight sc else sc)
       letterScores ps"

text \<open>The callback of \<^verbatim>\<open>typingHistory.forEach\<close>, on one attempt and its index.\<close>

definition score_attempt :: "nat \<Rightarrow> nat jsobj \<Rightarrow> nat \<times> attempt \<Rightarrow> nat jsobj" where
  "score_attempt historyLength letterScores =
     (\<lambda>(index, item).
        let target = toLowerCase (word item);
            typed = toLowerCase (input item)
        in if correct item then letterScores
           else
             let weight = (if int historyLength - 3 \<le> int index then 2 else 1)
             in score_positions weight (align target typed) letterScores)"

definition getProblemLetterScores :: "attempt list \<Rightarrow> nat jsobj" where
  "getProblemLetterScores typingHistory =
     (let historyLength = length typingHistory
      in foldl (score_attempt historyLength) [] (enumerate 0 typingHistory))"

text \<open>
  The loop over the top problem letters: the words of the first letter that narrows the
  candidates to a non-empty list, if there is one.
\<close>

fun targeted_subset :: "string list \<Rightarrow> char list \<Rightarrow> string list option" where
  "targeted_subset candidates [] = None"
| "targeted_subset candidates (letter # rest) =
     (let subset' = filter (\<lambda>w. letter \<in> set w) candidates
      in if 0 < length subset' then Some subset' else targeted_subset candidates rest)"

definition chooseNextWordWithDifficulty ::
  "rat \<Rightarrow> history_arg \<Rightarrow> string list option \<Rightarrow> tier option \<Rightarrow> js_error + string option" where
  "chooseNextWordWithDifficulty rnd typingHistory usedWords requestedDifficulty =
     (let used = map toLowerCase (case usedWords of None \<Rightarrow> [] | Some ws \<Rightarrow> ws)
      in case (case typingHistory of
                 Missing \<Rightarrow> Inr (getProblemLetterScores [])
               | NonArray truthy short \<Rightarrow>
                   if truthy then Inl TypeError else Inr (getProblemLetterScores [])
               | Elements es \<Rightarrow>
                   (case objects es of
                      Inl e \<Rightarrow> Inl e
                    | Inr h \<Rightarrow> Inr (getProblemLetterScores h))) of
           Inl e \<Rightarrow> Inl e
         | Inr scores \<Rightarrow>
            (case (case requestedDifficulty of
                     Some d \<Rightarrow> Inr d
                   | None \<Rightarrow> calculateAdaptiveDifficulty_dyn typingHistory) of
               Inl e \<Rightarrow> Inl e
             | Inr difficulty \<Rightarrow>
                (let candidates = filter (\<lambda>w. w \<notin> set used) (TYPING_WORDS difficulty);
                     candidates =
                       (if length candidates = 0
                        then filter (\<lambda>w. w \<notin> set used) ALL_TYPING_WORDS
                        else candidates)
                 in if length candidates = 0 then Inr (pickRandom rnd ALL_TYPING_WORDS)
                    else
                      let focusLetters = sort_desc (count_of scores) (Object_keys scores)
                      in case targeted_subset candidates (take 3 focusLetters) of
                           Some subset' \<Rightarrow> Inr (pickRandom rnd subset')
                         | None \<Rightarrow> Inr (pickRandom rnd candidates))))"

section \<open>Performance analyzer\<close>

datatype severity = mild | moderate | severe

datatype emotional_state = excelling | confident | challenged | struggling | frustrated

text \<open>An entry \<^verbatim>\<open>{ confuses, with, frequency }\<close>; \<open>withLetter\<close> is the field \<^verbatim>\<open>with\<close>.\<close>

record confusion =
  confuses :: char
  withLetter :: char
  frequency :: nat

text \<open>
  The advisory messages are fixed texts, two of them with an inserted list of letters;
  a constructor stands for each text and carries the inserted part.
\<close>

datatype recommendation =
    FocusLetters string
  | Distinguish string
  | VisualCards
  | ShorterSessions
  | ExcellentProgress
  | SimplerWords
  | Multisensory
  | TakeTime
  | GreatSpeed

text \<open>The \<open>i\<close>-th text of the pool of an emotional state.\<close>

datatype message = Message emotional_state nat

record metrics =
  avgTimeSpent :: int
  totalHesitations :: rat
  avgHesitations :: int
  isImproving :: bool
  recentAccuracy :: int

record analysis =
  problematicLetters :: "char list"
  confusionPatterns :: "confusion list"
  strengths :: "char list"
  overallAccuracy :: int
  recommendations :: "recommendation list"
  severity :: severity
  emotionalState :: emotional_state
  performanceMetrics :: metrics
  encouragement :: "message option"

definition messages :: "emotional_state \<Rightarrow> message list" where
  "messages st = [Message st 0, Message st 1, Message st 2]"

definition getEncouragementMessage :: "rat \<Rightarrow> emotional_state \<Rightarrow> int \<Rightarrow> message option" where
  "getEncouragementMessage rnd state accuracy =
     (let stateMessages = messages state in pickRandom rnd stateMessages)"

text \<open>\<^verbatim>\<open>confusionMap[t] = confusionMap[t] || {}; confusionMap[t][u] = (confusionMap[t][u] || 0) + 1\<close>\<close>

definition confusion_add :: "char \<Rightarrow> char \<Rightarrow> (nat jsobj) jsobj \<Rightarrow> (nat jsobj) jsobj" where
  "confusion_add t u confusionMap =
     obj_put t (obj_add u 1 (case map_of confusionMap t of None \<Rightarrow> [] | Some m \<Rightarrow> m)) confusionMap"

text \<open>
  The three tables of the letter loop: \<open>letterErrorCounts\<close>, \<open>letterOkCounts\<close> and
  \<open>confusionMap\<close>.
\<close>

type_synonym letter_tables = "nat jsobj \<times> nat jsobj \<times> (nat jsobj) jsobj"

fun count_position :: "letter_tables \<Rightarrow> char option \<times> char option \<Rightarrow> letter_tables" where
  "count_position (err, ok, conf) (None, u) = (err, ok, conf)"
| "count_position (err, ok, conf) (Some t, u) =
     (if Some t = u then (err, obj_add t 1 ok, conf)
      else (obj_add t 1 err, ok,
            case u of None \<Rightarrow> conf | Some c \<Rightarrow> confusion_add t c conf))"

definition count_letters :: "attempt list \<Rightarrow> letter_tables" where
  "count_letters all =
     foldl (\<lambda>tables item.
              let target = toLowerCase (word item);
                  typed = toLowerCase (input item)
              in foldl count_position tables (align target typed))
       ([], [], []) all"

definition overallAccuracy_of :: "attempt list \<Rightarrow> int" where
  "overallAccuracy_of all =
     (let totalWords = length all;
          correctWords = length (filter correct all)
      in if 0 < totalWords
         then Math_round (dmul (ddiv (of_nat correctWords) (of_nat totalWords)) 100)
         else 0)"

definition avgTimeSpent_of :: "attempt list \<Rightarrow> rat" where
  "avgTimeSpent_of all =
     (if 0 < length all then ddiv (sum_field timeSpent 0 all) (of_nat (length all)) else 0)"

definition totalHesitations_of :: "attempt list \<Rightarrow> rat" where
  "totalHesitations_of all = sum_field hesitations 0 all"

definition avgHesitations_of :: "attempt list \<Rightarrow> rat" where
  "avgHesitations_of all =
     (if 0 < length all then ddiv (totalHesitations_of all) (of_nat (length all)) else 0)"

definition confusion_entries :: "(nat jsobj) jsobj \<Rightarrow> confusion list" where
  "confusion_entries confusionMap =
     concat (map (\<lambda>(target, m).
                    let mistakenAs = take 2 (sort_desc snd (Object_entries m))
                    in map (\<lambda>(w, n). \<lparr>confuses = w, withLetter = target,
                                       frequency = count_of m w\<rparr>)
                         (filter (\<lambda>(w, n). w \<noteq> target) mistakenAs))
               (Object_entries confusionMap))"

definition build_recommendations ::
  "char list \<Rightarrow> confusion list \<Rightarrow> rat \<Rightarrow> int \<Rightarrow> rat \<Rightarrow> recommendation list" where
  "build_recommendations letters patterns avgHes accuracy avgTime =
     (if 0 < length letters
      then [FocusLetters (toUpperCase (join '', '' (map (\<lambda>c. [c]) (take 5 letters))))]
      else [])
     @ (if 0 < length patterns
        then [Distinguish (toUpperCase (join '', ''
                (map (\<lambda>p. [confuses p] @ ''/'' @ [withLetter p]) (take 3 patterns))))]
        else [])
     @ (if 2 < avgHes then [VisualCards, ShorterSessions] else [])
     @ (if 90 \<le> accuracy then [ExcellentProgress]
        else if accuracy < 70 then [SimplerWords, Multisensory] else [])
     @ (if 7000 < avgTime then [TakeTime]
        else if avgTime < 3000 then [GreatSpeed] else [])"

text \<open>
  The local variables of the source that share a name with a field of the result carry
  a prime here.
\<close>

definition analyzeResultsLocally :: "rat \<Rightarrow> attempt list \<Rightarrow> analysis" where
  "analyzeResultsLocally rnd all =
     (let overallAccuracy' = overallAccuracy_of all;
          avgTimeSpent' = avgTimeSpent_of all;
          totalHesitations' = totalHesitations_of all;
          avgHesitations' = avgHesitations_of all;
          (letterErrorCounts, letterOkCounts, confusionMap) = count_letters all;
          problematicLetters' =
            sort_desc (count_of letterErrorCounts) (Object_keys letterErrorCounts);
          strengths' =
            sort_desc (count_of letterOkCounts)
              (filter (\<lambda>l. count_of letterErrorCounts l \<le> count_of letterOkCounts l)
                 (Object_keys letterOkCounts));
          confusionPatterns' = confusion_entries confusionMap;
          (severity', emotionalState') =
            (if overallAccuracy' < 60 then (severe, struggling)
             else if overallAccuracy' < 80 then (moderate, challenged)
             else if 90 \<le> overallAccuracy' then (mild, excelling)
             else (mild, confident));
          emotionalState'' =
            (if 5/2 < avgHesitations' \<or> 7000 < avgTimeSpent' then frustrated
             else emotionalState');
          recommendations' =
            build_recommendations problematicLetters' confusionPatterns' avgHesitations'
              overallAccuracy' avgTimeSpent';
          last5 = slice_last 5 all;
          recentAccuracy' =
            (if 0 < length last5
             then dmul (ddiv (of_nat (length (filter correct last5))) (of_nat (length last5))) 100
             else 0);
          isImproving' = (of_int overallAccuracy' < recentAccuracy')
      in \<lparr>problematicLetters = problematicLetters',
          confusionPatterns = confusionPatterns',
          strengths = strengths',
          overallAccuracy = overallAccuracy',
          recommendations = recommendations',
          severity = severity',
          emotionalState = emotionalState'',
          performanceMetrics =
            \<lparr>avgTimeSpent = Math_round avgTimeSpent',
             totalHesitations = totalHesitations',
             avgHesitations = toFixed1 avgHesitations',
             isImproving = isImproving',
             recentAccuracy = Math_round recentAccuracy'\<rparr>,
          encouragement = getEncouragementMessage rnd emotionalState'' overallAccuracy'\<rparr>)"


section \<open>Word selector: the pool and the scores\<close>

text \<open>The test \<^verbatim>\<open>!used.has(w)\<close> on a list of words.\<close>

definition unused_words :: "string list \<Rightarrow> string list \<Rightarrow> string list" where
  "unused_words usedWords ws = filter (\<lambda>w. w \<notin> set (map toLowerCase usedWords)) ws"

text \<open>The value of the variable \<^verbatim>\<open>difficulty\<close> of the selector.\<close>

definition selector_difficulty :: "attempt list \<Rightarrow> tier option \<Rightarrow> tier" where
  "selector_difficulty h requestedDifficulty =
     (case requestedDifficulty of Some t \<Rightarrow> t | None \<Rightarrow> calculateAdaptiveDifficulty h)"

text \<open>The value of the variable \<^verbatim>\<open>candidates\<close> after the fallback to all words.\<close>

definition candidate_pool :: "attempt list \<Rightarrow> string list \<Rightarrow> tier option \<Rightarrow> string list" where
  "candidate_pool h usedWords requestedDifficulty =
     (let candidates = unused_words usedWords (TYPING_WORDS (selector_difficulty h requestedDifficulty))
      in if candidates = [] then unused_words usedWords ALL_TYPING_WORDS else candidates)"

text \<open>The value of the variable \<^verbatim>\<open>focusLetters\<close>.\<close>

definition focus_letters :: "attempt list \<Rightarrow> char list" where
  "focus_letters h =
     sort_desc (count_of (getProblemLetterScores h)) (Object_keys (getProblemLetterScores h))"

text \<open>
  Modelled on the scoring rule of the specification, to be compared with the table that
  \<^verbatim>\<open>getProblemLetterScores\<close> builds: every incorrect attempt adds, for each aligned
  position whose target character is the letter and whose typed character differs or is
  missing, the weight 2 when the attempt is among the last three of the history and the
  weight 1 otherwise.
\<close>

definition letter_score_spec :: "attempt list \<Rightarrow> char \<Rightarrow> nat" where
  "letter_score_spec h l =
     sum_list (map (\<lambda>(i, a).
                 if correct a then 0
                 else (if length h \<le> i + 3 then 2 else 1)
                      * length (filter (\<lambda>(t, u). t = Some l \<and> u \<noteq> Some l)
                                  (align (toLowerCase (word a)) (toLowerCase (input a)))))
            (enumerate 0 h))"

section \<open>Letter counts in the words of the specification\<close>

text \<open>
  Modelled on the specification of the analyzer, to be compared with the tables the
  loop builds: over every attempt, the aligned positions whose target character is the
  letter count as an error where the typed character differs (or is missing) and as ok
  where it is the same.
\<close>

definition error_count_spec :: "attempt list \<Rightarrow> char \<Rightarrow> nat" where
  "error_count_spec xs l =
     sum_list (map (\<lambda>a. length (filter (\<lambda>(t, u). t = Some l \<and> u \<noteq> Some l)
                                 (align (toLowerCase (word a)) (toLowerCase (input a))))) xs)"

definition ok_count_spec :: "attempt list \<Rightarrow> char \<Rightarrow> nat" where
  "ok_count_spec xs l =
     sum_list (map (\<lambda>a. length (filter (\<lambda>(t, u). t = Some l \<and> u = Some l)
                                 (align (toLowerCase (word a)) (toLowerCase (input a))))) xs)"

text \<open>The invariant of a table of counts: its keys are the letters with a positive count.\<close>

definition keys_positive :: "nat jsobj \<Rightarrow> bool" where
  "keys_positive ob = (\<forall>l. (l \<in> fst ` set ob) = (0 < count_of ob l))"

section \<open>Difficulty estimator in the words of the specification\<close>

text \<open>
  Modelled on the specification of the estimator, to be compared with
  \<^verbatim>\<open>calculateAdaptiveDifficulty\<close>: \<open>medium\<close> below three attempts; otherwise, over the
  last five attempts (or fewer), the accuracy is the number of correct attempts by the
  size of the window, the average time is the sum of the times by the size of the window
  and the average hesitations likewise, a missing number counting as zero, all in exact
  arithmetic.
\<close>

definition estimate_spec :: "attempt list \<Rightarrow> tier" where
  "estimate_spec history =
     (if length history < 3 then medium
      else
        let window = drop (length history - min 5 (length history)) history;
            windowSize = of_nat (length window) :: rat;
            accuracy = of_nat (length (filter correct window)) / windowSize;
            avgTimeMs =
              of_int (sum_list (map (\<lambda>r. case timeSpent r of None \<Rightarrow> 0 | Some t \<Rightarrow> t) window))
                / windowSize;
            avgHesitations =
              of_int (sum_list (map (\<lambda>r. case hesitations r of None \<Rightarrow> 0 | Some c \<Rightarrow> c) window))
                / windowSize
        in if 4/5 \<le> accuracy \<and> avgTimeMs < 5000 \<and> avgHesitations < 2 then hard
           else if accuracy < 1/2 \<or> 3 < avgHesitations \<or> 8000 < avgTimeMs then easy
           else medium)"

section \<open>Sample histories\<close>

definition sample_fast :: "attempt list" where
  "sample_fast =
     [\<lparr>word = ''cat'', input = ''cat'', correct = True, timeSpent = Some 1000, hesitations = Some 0\<rparr>,
      \<lparr>word = ''dog'', input = ''dog'', correct = True, timeSpent = Some 2000, hesitations = Some 1\<rparr>,
      \<lparr>word = ''sun'', input = ''sun'', correct = True, timeSpent = Some 3000, hesitations = None\<rparr>]"


definition sample_zero_time :: "attempt list" where
  "sample_zero_time =
     [\<lparr>word = ''cat'', input = ''cat'', correct = True, timeSpent = Some 0, hesitations = Some 0\<rparr>,
      \<lparr>word = ''dog'', input = ''dog'', correct = True, timeSpent = Some 0, hesitations = Some 0\<rparr>,
      \<lparr>word = ''sun'', input = ''sun'', correct = True, timeSpent = Some 0, hesitations = Some 0\<rparr>]"

definition sample_slow :: "attempt list" where
  "sample_slow =
     [\<lparr>word = ''cat'', input = ''cat'', correct = True, timeSpent = Some 8000, hesitations = Some 0\<rparr>,
      \<lparr>word = ''dog'', input = ''dog'', correct = True, timeSpent = Some 7000, hesitations = None\<rparr>]"

definition sample_hesitant :: "attempt list" where
  "sample_hesitant =
     replicate 4 \<lparr>word = ''cat'', input = ''cat'', correct = True,
                  timeSpent = Some 2000, hesitations = Some 4\<rparr>
     @ replicate 6 \<lparr>word = ''cat'', input = ''bat'', correct = False,
                  timeSpent = Some 2000, hesitations = Some 4\<rparr>"

definition sample_23_of_40 :: "attempt list" where
  "sample_23_of_40 =
     replicate 23 \<lparr>word = ''cat'', input = ''cat'', correct = True,
                   timeSpent = None, hesitations = None\<rparr>
     @ replicate 17 \<lparr>word = ''cat'', input = ''bat'', correct = False,
                   timeSpent = None, hesitations = None\<rparr>"

definition cat_history ::
  "int option \<Rightarrow> int option \<Rightarrow> int option \<Rightarrow> int option \<Rightarrow> int option \<Rightarrow>
   int option \<Rightarrow> int option \<Rightarrow> int option \<Rightarrow> int option \<Rightarrow> int option \<Rightarrow> attempt list" where
  "cat_history t1 t2 t3 t4 t5 h1 h2 h3 h4 h5 =
     [\<lparr>word = ''cat'', input = ''cat'', correct = True, timeSpent = t1, hesitations = h1\<rparr>,
      \<lparr>word = ''cat'', input = ''bat'', correct = False, timeSpent = t2, hesitations = h2\<rparr>,
      \<lparr>word = ''cat'', input = ''cat'', correct = True, timeSpent = t3, hesitations = h3\<rparr>,
      \<lparr>word = ''cat'', input = ''kat'', correct = False, timeSpent = t4, hesitations = h4\<rparr>,
      \<lparr>word = ''cat'', input = ''cat'', correct = True, timeSpent = t5, hesitations = h5\<rparr>]"

definition sample_mixed :: "attempt list" where
  "sample_mixed =
     [\<lparr>word = ''aab'', input = ''abb'', correct = False, timeSpent = None, hesitations = None\<rparr>]"

definition zip_history :: "attempt list" where
  "zip_history =
     [\<lparr>word = ''zip'', input = ''sip'', correct = False, timeSpent = None, hesitations = None\<rparr>]"

definition dog_history :: "attempt list" where
  "dog_history =
     [\<lparr>word = ''dog'', input = ''bog'', correct = False, timeSpent = None, hesitations = None\<rparr>]"

section \<open>Properties of the rounding\<close>

lemma round_half_even_close: "\<bar>of_int (round_half_even x) - x\<bar> \<le> 1/2"
proof -
  define f where "f = \<lfloor>x\<rfloor>"
  have fx: "of_int f \<le> x" "x < of_int f + 1" unfolding f_def by linarith+
  have r: "round_half_even x = (if x - of_int f < 1/2 then f else if 1/2 < x - of_int f then f + 1
               else if even f then f else f + 1)"
    unfolding round_half_even_def Let_def f_def ..
  show ?thesis
  proof (cases "x - of_int f < 1/2")
    case True
    then have "round_half_even x = f" using r by simp
    then show ?thesis using fx True by (simp add: abs_if)
  next
    case False
    show ?thesis
    proof (cases "1/2 < x - of_int f")
      case True
      then have "round_half_even x = f + 1" using r False by simp
      then show ?thesis using fx True by (simp add: abs_if)
    next
      case F2: False
      with False have eq: "x = of_int f + 1/2" by linarith
      have "round_half_even x = f \<or> round_half_even x = f + 1" using r by (simp split: if_splits)
      then show ?thesis using eq by (auto simp: abs_if)
    qed
  qed
qed

lemma round_half_even_of_int: "round_half_even (of_int n) = n"
  by (simp add: round_half_even_def)

lemma round_half_even_mono: assumes "x \<le> y" shows "round_half_even x \<le> round_half_even y"
proof (rule ccontr)
  assume "\<not> round_half_even x \<le> round_half_even y"
  then have lt: "round_half_even y + 1 \<le> round_half_even x" by simp
  then have "(of_int (round_half_even y) :: rat) + 1 \<le> of_int (round_half_even x)" 
    by (metis of_int_1 of_int_add of_int_le_iff)
  moreover have "of_int (round_half_even x) - x \<le> 1/2" "y - of_int (round_half_even y) \<le> 1/2"
    using round_half_even_close[of x] round_half_even_close[of y] by linarith+
  ultimately have "x = y" using assms by linarith
  with lt show False by simp
qed

lemma bit_length_nonneg: "0 \<le> bit_length n"
proof (induction n rule: bit_length.induct)
  case (1 n)
  show ?case
  proof (cases "n \<le> 0")
    case True
    then show ?thesis by (simp add: bit_length.simps)
  next
    case False
    then have "bit_length n = 1 + bit_length (n div 2)" by (simp add: bit_length.simps)
    with "1.IH" [OF False] show ?thesis by simp
  qed
qed

lemma bit_length_pos: "0 < n \<Longrightarrow> 0 < bit_length n"
  using bit_length_nonneg [of "n div 2"] bit_length.simps [of n] by simp

lemma pow2_pos: "0 < (2::rat) powi k"
  by (simp add: zero_less_power_int)

lemma pow2_mono: "m \<le> n \<Longrightarrow> (2::rat) powi m \<le> 2 powi n"
  by (simp add: power_int_increasing)

lemma pow2_less_imp: "(2::rat) powi m < 2 powi n \<Longrightarrow> m < n"
  using pow2_mono [of n m] by (cases "m < n") auto

lemma pow2_Suc: "(2::rat) powi (k + 1) = 2 * 2 powi k"
  by (simp add: power_int_add)

lemma bit_length_bounds_int:
  "0 < n \<Longrightarrow> 2 ^ nat (bit_length n - 1) \<le> n \<and> n < 2 ^ nat (bit_length n)"
proof (induction n rule: bit_length.induct)
  case (1 n)
  show ?case
  proof (cases "n = 1")
    case True
    then have "bit_length n = 1" by (simp add: bit_length.simps)
    with True show ?thesis by simp
  next
    case False
    with "1.prems" have h: "0 < n div 2" by simp
    have b: "bit_length n = 1 + bit_length (n div 2)" using "1.prems" by (simp add: bit_length.simps)
    define k where "k = nat (bit_length (n div 2) - 1)"
    have bk: "bit_length (n div 2) = int k + 1" using bit_length_pos [OF h] by (simp add: k_def)
    have n0: "\<not> n \<le> 0" using "1.prems" by simp
    have k1: "nat (bit_length (n div 2)) = Suc k" using bk by simp
    from "1.IH" [OF n0 h]
    have ih: "2 ^ k \<le> n div 2" "n div 2 < 2 ^ (Suc k)"
      unfolding k1 k_def [symmetric] by simp_all
    have lo: "2 * (n div 2) \<le> n" and hi: "n \<le> 2 * (n div 2) + 1" by linarith+
    have e1: "nat (bit_length n - 1) = Suc k" and e2: "nat (bit_length n) = Suc (Suc k)"
      using b bk by simp_all
    have "(2::int) ^ Suc k \<le> n" using ih(1) lo by simp
    moreover have "n < 2 ^ Suc (Suc k)" using ih(2) hi by simp
    ultimately show ?thesis by (simp only: e1 e2)
  qed
qed

lemma bit_length_bounds:
  assumes "0 < n"
  shows "(2::rat) powi (bit_length n - 1) \<le> of_int n" "of_int n < (2::rat) powi bit_length n"
proof -
  have p: "0 \<le> bit_length n - 1" "0 \<le> bit_length n" using bit_length_pos [OF assms] by simp_all
  have a: "(2::rat) powi (bit_length n - 1) = of_int (2 ^ nat (bit_length n - 1))"
    using p(1) by (simp add: power_int_def)
  have b: "(2::rat) powi (bit_length n) = of_int (2 ^ nat (bit_length n))"
    using p(2) by (simp add: power_int_def)
  from bit_length_bounds_int [OF assms] show "(2::rat) powi (bit_length n - 1) \<le> of_int n"
    unfolding a by (simp only: of_int_le_iff)
  from bit_length_bounds_int [OF assms] show "of_int n < (2::rat) powi bit_length n"
    unfolding b by (simp only: of_int_less_iff)
qed

lemma exponent_of_bounds:
  assumes "0 < x"
  shows "2 powi exponent_of x \<le> x" "x < 2 powi (exponent_of x + 1)"
proof -
  obtain a b where q: "quotient_of x = (a, b)" by (cases "quotient_of x")
  have bpos: "0 < b" using q quotient_of_denom_pos by blast
  have xe: "x = of_int a / of_int b" using q by (rule quotient_of_div)
  have apos: "0 < a" using assms bpos xe by (simp add: zero_less_divide_iff)
  define d where "d = bit_length a - bit_length b"
  have ex: "exponent_of x = (if 2 powi d \<le> x then d else d - 1)"
    by (simp add: exponent_of_def q d_def Let_def)
  note A = bit_length_bounds [OF apos] and B = bit_length_bounds [OF bpos]
  have bq: "(0::rat) < of_int b" using bpos by simp
  have up: "x < 2 powi (d + 1)"
  proof -
    have "x * of_int b = of_int a" using xe bq by simp
    also have "\<dots> < 2 powi bit_length a" by (rule A(2))
    also have "\<dots> = 2 powi (d + 1) * 2 powi (bit_length b - 1)"
      using power_int_add [of "2::rat" "d + 1" "bit_length b - 1"] by (simp add: d_def)
    also have "\<dots> \<le> 2 powi (d + 1) * of_int b"
      using B(1) pow2_pos [of "d + 1"] by (simp add: mult_left_mono less_imp_le)
    finally show ?thesis using bq by simp
  qed
  have lo: "2 powi (d - 1) \<le> x"
  proof -
    have "(2::rat) powi (d - 1) * of_int b \<le> 2 powi (d - 1) * 2 powi bit_length b"
      using B(2) pow2_pos [of "d - 1"] by (simp add: mult_left_mono less_imp_le)
    also have "\<dots> = 2 powi (bit_length a - 1)"
      using power_int_add [of "2::rat" "d - 1" "bit_length b"] by (simp add: d_def)
    also have "\<dots> \<le> of_int a" by (rule A(1))
    also have "\<dots> = x * of_int b" using xe bq by simp
    finally show ?thesis using bq by simp
  qed
  show "2 powi exponent_of x \<le> x" using lo by (simp add: ex)
  show "x < 2 powi (exponent_of x + 1)" using up by (auto simp: ex)
qed

lemma exponent_of_unique:
  assumes "2 powi e \<le> x" "x < 2 powi (e + 1)"
  shows "exponent_of x = e"
proof -
  have xpos: "0 < x" using assms(1) pow2_pos [of e] by linarith
  note E = exponent_of_bounds [OF xpos]
  have "2 powi e < (2::rat) powi (exponent_of x + 1)" using assms(1) E(2) by linarith
  then have "e < exponent_of x + 1" by (rule pow2_less_imp)
  moreover have "2 powi exponent_of x < (2::rat) powi (e + 1)" using assms(2) E(1) by linarith
  then have "exponent_of x < e + 1" by (rule pow2_less_imp)
  ultimately show ?thesis by simp
qed

lemma pow2_split: "(2::rat) powi (a + b) = 2 powi a * 2 powi b"
  by (simp add: power_int_add)

lemma pow2_shift: "int n + k = j \<Longrightarrow> (2::rat) ^ n * 2 powi k = 2 powi j"
  by (auto simp: power_int_add)

lemma pow2_cancel: "a + b = int n \<Longrightarrow> (2::rat) powi a * 2 powi b = 2 ^ n"
  using pow2_split [of a b] by simp

lemma round_pos_scaled:
  assumes "0 < x"
  shows "2 ^ 52 \<le> x * 2 powi (52 - exponent_of x)" "x * 2 powi (52 - exponent_of x) < 2 ^ 53"
proof -
  note E = exponent_of_bounds [OF assms]
  have s: "(0::rat) < 2 powi (52 - exponent_of x)" by (rule pow2_pos)
  have a: "(2::rat) powi exponent_of x * 2 powi (52 - exponent_of x) = 2 ^ 52"
    by (rule pow2_cancel) simp
  have b: "(2::rat) powi (exponent_of x + 1) * 2 powi (52 - exponent_of x) = 2 ^ 53"
    by (rule pow2_cancel) simp
  from E(1) s have "2 powi exponent_of x * 2 powi (52 - exponent_of x) \<le> x * 2 powi (52 - exponent_of x)"
    by (simp add: mult_right_mono less_imp_le)
  then show "2 ^ 52 \<le> x * 2 powi (52 - exponent_of x)" unfolding a .
  from E(2) s have "x * 2 powi (52 - exponent_of x) < 2 powi (exponent_of x + 1) * 2 powi (52 - exponent_of x)"
    by (simp add: mult_strict_right_mono)
  then show "x * 2 powi (52 - exponent_of x) < 2 ^ 53" unfolding b .
qed

lemma round_half_even_scaled:
  assumes "0 < x"
  shows "2 ^ 52 \<le> round_half_even (x * 2 powi (52 - exponent_of x))" "round_half_even (x * 2 powi (52 - exponent_of x)) \<le> 2 ^ 53"
proof -
  note S = round_pos_scaled [OF assms]
  have "round_half_even (of_int (2 ^ 52)) \<le> round_half_even (x * 2 powi (52 - exponent_of x))"
    by (rule round_half_even_mono) (use S(1) in simp)
  then show "2 ^ 52 \<le> round_half_even (x * 2 powi (52 - exponent_of x))" by (simp only: round_half_even_of_int)
  have "round_half_even (x * 2 powi (52 - exponent_of x)) \<le> round_half_even (of_int (2 ^ 53))"
    by (rule round_half_even_mono) (use S(2) in simp)
  then show "round_half_even (x * 2 powi (52 - exponent_of x)) \<le> 2 ^ 53" by (simp only: round_half_even_of_int)
qed

lemma round_pos_bounds:
  assumes "0 < x"
  shows "2 powi exponent_of x \<le> round_pos x" "round_pos x \<le> 2 powi (exponent_of x + 1)"
proof -
  note R = round_half_even_scaled [OF assms]
  have s: "(0::rat) < 2 powi (exponent_of x - 52)" by (rule pow2_pos)
  have a: "(2::rat) ^ 52 * 2 powi (exponent_of x - 52) = 2 powi exponent_of x"
    by (rule pow2_shift) simp
  have b: "(2::rat) ^ 53 * 2 powi (exponent_of x - 52) = 2 powi (exponent_of x + 1)"
    by (rule pow2_shift) simp
  have "(2::rat) ^ 52 \<le> of_int (round_half_even (x * 2 powi (52 - exponent_of x)))"
    using R(1) by (metis of_int_le_iff of_int_numeral of_int_power)
  then have "2 ^ 52 * 2 powi (exponent_of x - 52) \<le> round_pos x"
    unfolding round_pos_def using s by (simp add: mult_right_mono less_imp_le)
  then show "2 powi exponent_of x \<le> round_pos x" unfolding a .
  have "of_int (round_half_even (x * 2 powi (52 - exponent_of x))) \<le> (2::rat) ^ 53"
    using R(2) by (metis of_int_le_iff of_int_numeral of_int_power)
  then have "round_pos x \<le> 2 ^ 53 * 2 powi (exponent_of x - 52)"
    unfolding round_pos_def using s by (simp add: mult_right_mono less_imp_le)
  then show "round_pos x \<le> 2 powi (exponent_of x + 1)" unfolding b .
qed

lemma round_pos_pos: "0 < x \<Longrightarrow> 0 < round_pos x"
  using round_pos_bounds(1) [of x] pow2_pos [of "exponent_of x"] by linarith

lemma round_pos_mono:
  assumes "0 < x" "x \<le> y"
  shows "round_pos x \<le> round_pos y"
proof -
  have ypos: "0 < y" using assms by linarith
  note Ex = exponent_of_bounds [OF assms(1)] and Ey = exponent_of_bounds [OF ypos]
  have "2 powi exponent_of x < (2::rat) powi (exponent_of y + 1)" using Ex(1) assms(2) Ey(2) by linarith
  then have le: "exponent_of x \<le> exponent_of y" using pow2_less_imp by fastforce
  show ?thesis
  proof (cases "exponent_of x = exponent_of y")
    case True
    have "x * 2 powi (52 - exponent_of y) \<le> y * 2 powi (52 - exponent_of y)"
      using assms(2) pow2_pos [of "52 - exponent_of y"] by (simp add: mult_right_mono less_imp_le)
    then have "round_half_even (x * 2 powi (52 - exponent_of y)) \<le> round_half_even (y * 2 powi (52 - exponent_of y))"
      by (rule round_half_even_mono)
    then have "(of_int (round_half_even (x * 2 powi (52 - exponent_of y))) :: rat)
                 \<le> of_int (round_half_even (y * 2 powi (52 - exponent_of y)))" by (simp only: of_int_le_iff)
    then show ?thesis unfolding round_pos_def True
      using pow2_pos [of "exponent_of y - 52"] by (simp add: mult_right_mono less_imp_le)
  next
    case False
    with le have "exponent_of x + 1 \<le> exponent_of y" by simp
    then have "(2::rat) powi (exponent_of x + 1) \<le> 2 powi exponent_of y" by (rule pow2_mono)
    with round_pos_bounds(2) [OF assms(1)] round_pos_bounds(1) [OF ypos] show ?thesis by linarith
  qed
qed

lemma to_double_mono: assumes "x \<le> y" shows "to_double x \<le> to_double y"
proof -
  consider "0 < x" | "x = 0" | "x < 0" "0 < y" | "x < 0" "y = 0" | "x < 0" "y < 0"
    by linarith
  then show ?thesis
  proof cases
    case 1
    then show ?thesis using assms round_pos_mono [of x y] by (simp add: to_double_def)
  next
    case 2
    then show ?thesis using assms round_pos_pos [of y] by (auto simp: to_double_def less_imp_le)
  next
    case 3
    then show ?thesis using round_pos_pos [of y] round_pos_pos [of "- x"] by (simp add: to_double_def)
  next
    case 4
    then show ?thesis using round_pos_pos [of "- x"] by (simp add: to_double_def less_imp_le)
  next
    case 5
    then show ?thesis using assms round_pos_mono [of "- y" "- x"] by (simp add: to_double_def)
  qed
qed

lemma to_double_minus: "to_double (- x) = - to_double x"
  by (simp add: to_double_def)

lemma to_double_nonneg: "0 \<le> x \<Longrightarrow> 0 \<le> to_double x"
  using to_double_mono [of 0 x] by (simp add: to_double_def)

lemma round_pos_err:
  assumes "0 < x"
  shows "\<bar>round_pos x - x\<bar> \<le> 2 powi (exponent_of x - 53)"
proof -
  define s where "s = (2::rat) powi (exponent_of x - 52)"
  define z where "z = x * 2 powi (52 - exponent_of x)"
  have spos: "0 < s" unfolding s_def by (rule pow2_pos)
  have "(2::rat) powi (52 - exponent_of x) * 2 powi (exponent_of x - 52) = 2 ^ 0"
    by (rule pow2_cancel) simp
  then have xz: "x = z * s" unfolding z_def s_def by simp
  have h: "s / 2 = 2 powi (exponent_of x - 53)"
    using pow2_split [of "exponent_of x - 53" 1] unfolding s_def by simp
  have "round_pos x - x = (of_int (round_half_even z) - z) * s"
    unfolding round_pos_def s_def [symmetric] z_def [symmetric] using xz
    by (simp add: algebra_simps)
  then have "\<bar>round_pos x - x\<bar> = \<bar>of_int (round_half_even z) - z\<bar> * s"
    using spos by (simp add: abs_mult)
  also have "\<dots> \<le> (1/2) * s" using round_half_even_close [of z] spos by (simp add: mult_right_mono less_imp_le)
  finally show ?thesis using h by simp
qed

lemma to_double_rel_err:
  assumes "0 < x"
  shows "\<bar>to_double x - x\<bar> \<le> x / 2 ^ 53"
proof -
  have "(2::rat) ^ 53 * 2 powi (exponent_of x - 53) = 2 powi exponent_of x"
    by (rule pow2_shift) simp
  then have "2 powi (exponent_of x - 53) = 2 powi exponent_of x / (2::rat) ^ 53"
    by (metis nonzero_mult_div_cancel_left power_eq_0_iff zero_neq_numeral)
  also have "\<dots> \<le> x / 2 ^ 53"
    using exponent_of_bounds(1) [OF assms] by (simp add: divide_right_mono)
  finally show ?thesis using round_pos_err [OF assms] assms by (simp add: to_double_def)
qed

section \<open>Difficulty estimator: tiers\<close>

lemma slice_last_length: "length (slice_last k xs) = min k (length xs)"
  by (simp add: slice_last_def)

lemma slice_last_map: "slice_last k (map f xs) = map f (slice_last k xs)"
  by (simp add: slice_last_def drop_map)

lemma objects_Some: "objects (map Some h) = Inr h"
  by (induction h) simp_all


lemma estimator_dyn_Attempts:
  "calculateAdaptiveDifficulty_dyn (Attempts h) = Inr (calculateAdaptiveDifficulty h)"
  by (simp add: calculateAdaptiveDifficulty_dyn_def calculateAdaptiveDifficulty_def
      slice_last_map objects_Some Let_def)


lemma to_double_0: "to_double 0 = 0"
  by (simp add: to_double_def)


lemma sum_field_snoc:
  "sum_field fld d (rs @ [r]) = dadd (sum_field fld d rs) (of_int (or_default (fld r) d))"
  by (simp add: sum_field_def)



lemma acc_table:
  "\<forall>n\<in>set [3..<6]. \<forall>k\<in>set [0..<Suc n].
     (to_double (4/5) \<le> ddiv (of_nat k) (of_nat n) \<longleftrightarrow> 4 * n \<le> 5 * k) \<and>
     (ddiv (of_nat k) (of_nat n) < 1/2 \<longleftrightarrow> 2 * k < n)"
  by code_simp

lemma acc_cases:
  assumes "k \<le> n" "3 \<le> n" "n \<le> 5"
  shows "(to_double (4/5) \<le> ddiv (of_nat k) (of_nat n) \<longleftrightarrow> 4 * n \<le> 5 * k) \<and>
         (ddiv (of_nat k) (of_nat n) < 1/2 \<longleftrightarrow> 2 * k < n)"
proof -
  have "n \<in> set [3..<6]" "k \<in> set [0..<Suc n]" using assms by auto
  with acc_table show ?thesis by blast
qed

lemma window_accuracy_exact:
  assumes "3 \<le> length h"
  shows "(to_double (4/5) \<le> window_accuracy (slice_last 5 h)
            \<longleftrightarrow> 4 * length (slice_last 5 h) \<le> 5 * length (filter correct (slice_last 5 h))) \<and>
         (window_accuracy (slice_last 5 h) < 1/2
            \<longleftrightarrow> 2 * length (filter correct (slice_last 5 h)) < length (slice_last 5 h))"
  unfolding window_accuracy_def
proof (rule acc_cases)
  show "length (filter correct (slice_last 5 h)) \<le> length (slice_last 5 h)"
    by (rule length_filter_le)
  show "3 \<le> length (slice_last 5 h)" "length (slice_last 5 h) \<le> 5"
    using assms by (simp_all add: slice_last_length)
qed

lemma to_double_pow53: "to_double (2 ^ 53) = 2 ^ 53"
  by code_simp

lemma to_double_of_int_pos:
  assumes "0 < n" "n \<le> 2 ^ 53"
  shows "to_double (of_int n) = of_int n"
proof -
  define x :: rat where "x = of_int n"
  have xpos: "0 < x" using assms(1) by (simp add: x_def)
  note E = exponent_of_bounds [OF xpos]
  have x1: "1 \<le> x" using assms(1) by (simp add: x_def)
  have xle: "x \<le> 2 ^ 53" unfolding x_def using assms(2)
    by (metis of_int_le_iff of_int_numeral of_int_power)
  have e0: "0 \<le> exponent_of x"
  proof (rule ccontr)
    assume "\<not> 0 \<le> exponent_of x"
    then have "exponent_of x + 1 \<le> 0" by simp
    from pow2_mono [OF this] E(2) x1 show False by simp
  qed
  have e53: "exponent_of x \<le> 53"
  proof (rule ccontr)
    assume "\<not> exponent_of x \<le> 53"
    then have "54 \<le> exponent_of x" by simp
    from pow2_mono [OF this] E(1) xle show False by simp
  qed
  show ?thesis
  proof (cases "exponent_of x = 53")
    case True
    with E(1) xle have "x = 2 ^ 53" by simp
    then show ?thesis using to_double_pow53 by (simp add: x_def)
  next
    case False
    with e53 have le: "exponent_of x \<le> 52" by simp
    define k where "k = nat (52 - exponent_of x)"
    have p: "(2::rat) powi (52 - exponent_of x) = of_int (2 ^ k)"
      using le by (simp add: k_def power_int_def)
    have "x * 2 powi (52 - exponent_of x) = of_int (n * 2 ^ k)"
      unfolding p by (simp add: x_def)
    then have r: "round_half_even (x * 2 powi (52 - exponent_of x)) = n * 2 ^ k"
      by (simp only: round_half_even_of_int)
    have c: "(2::rat) powi (52 - exponent_of x) * 2 powi (exponent_of x - 52) = 2 ^ 0"
      by (rule pow2_cancel) simp
    have "round_pos x = of_int n * (of_int (2 ^ k) * 2 powi (exponent_of x - 52))"
      unfolding round_pos_def r by simp
    also have "\<dots> = of_int n" using c unfolding p by simp
    finally show ?thesis using xpos by (simp add: to_double_def x_def)
  qed
qed

lemma to_double_of_int:
  assumes "\<bar>n\<bar> \<le> 2 ^ 53"
  shows "to_double (of_int n) = of_int n"
proof -
  consider "n = 0" | "0 < n" | "n < 0" by linarith
  then show ?thesis
  proof cases
    case 1
    then show ?thesis by (simp add: to_double_def)
  next
    case 2
    with assms show ?thesis by (intro to_double_of_int_pos) simp_all
  next
    case 3
    with assms have "to_double (of_int (- n)) = of_int (- n)"
      by (intro to_double_of_int_pos) simp_all
    then show ?thesis using to_double_minus [of "of_int n"] by simp
  qed
qed

lemma sum_field_exact:
  "length w \<le> 5 \<Longrightarrow> \<forall>r\<in>set w. \<bar>or_default (fld r) d\<bar> \<le> 2 ^ 50 \<Longrightarrow>
     sum_field fld d w = of_int (sum_list (map (\<lambda>r. or_default (fld r) d) w)) \<and>
     \<bar>sum_list (map (\<lambda>r. or_default (fld r) d) w)\<bar> \<le> int (length w) * 2 ^ 50"
proof (induction w rule: rev_induct)
  case Nil
  then show ?case by (simp add: sum_field_def)
next
  case (snoc r w)
  define S where "S = sum_list (map (\<lambda>r. or_default (fld r) d) w)"
  define v where "v = or_default (fld r) d"
  from snoc have ih: "sum_field fld d w = of_int S" "\<bar>S\<bar> \<le> int (length w) * 2 ^ 50"
    by (simp_all add: S_def)
  have v: "\<bar>v\<bar> \<le> 2 ^ 50" using snoc.prems(2) by (simp add: v_def)
  have l: "int (length w) \<le> 4" using snoc.prems(1) by simp
  have b: "\<bar>S + v\<bar> \<le> (int (length w) + 1) * 2 ^ 50" using ih(2) v by (simp add: algebra_simps)
  also have "\<dots> \<le> 5 * 2 ^ 50" using l by simp
  also have "\<dots> \<le> 2 ^ 53" by simp
  finally have "to_double (of_int (S + v)) = of_int (S + v)" by (rule to_double_of_int)
  then have "sum_field fld d (w @ [r]) = of_int (S + v)"
    by (simp add: sum_field_snoc ih(1) dadd_def v_def)
  with b show ?case by (simp add: S_def v_def algebra_simps)
qed

lemma div_shift:
  fixes a :: rat
  assumes "0 < n"
  shows "(a * of_nat n + 1) / of_nat n = a + 1 / of_nat n"
    "(a * of_nat n - 1) / of_nat n = a - 1 / of_nat n"
    "(a * of_nat n) / of_nat n = a"
  using assms by (simp_all add: add_divide_distrib diff_divide_distrib)

lemma eighth_le: "0 < n \<Longrightarrow> n \<le> 5 \<Longrightarrow> (1::rat) / 8 \<le> 1 / of_nat n"
proof -
  assume "0 < n" "n \<le> 5"
  then have "(of_nat n :: rat) \<le> 8" "(0::rat) < of_nat n" by simp_all
  then show ?thesis by (simp add: frac_le)
qed

lemma ddiv_less_int:
  fixes s T :: int and n :: nat
  assumes "0 < n" "n \<le> 5" "to_double (of_int T) = of_int T"
    "to_double (of_int T - 1/8) = of_int T - 1/8"
  shows "ddiv (of_int s) (of_nat n) < of_int T \<longleftrightarrow> s < T * int n"
proof
  assume a: "ddiv (of_int s) (of_nat n) < of_int T"
  show "s < T * int n"
  proof (rule ccontr)
    assume "\<not> s < T * int n"
    then have "T * int n \<le> s" by simp
    then have "(of_int (T * int n) :: rat) \<le> of_int s" by (simp only: of_int_le_iff)
    then have "(of_int T * of_nat n) / of_nat n \<le> (of_int s :: rat) / of_nat n"
      by (intro divide_right_mono) simp_all
    then have "(of_int T :: rat) \<le> of_int s / of_nat n"
      unfolding div_shift(3) [OF assms(1)] .
    from to_double_mono [OF this] a show False by (simp add: ddiv_def assms(3))
  qed
next
  assume "s < T * int n"
  then have "s \<le> T * int n - 1" by simp
  then have "(of_int s :: rat) \<le> of_int (T * int n - 1)" by (simp only: of_int_le_iff)
  then have "(of_int s :: rat) / of_nat n \<le> (of_int T * of_nat n - 1) / of_nat n"
    by (intro divide_right_mono) simp_all
  then have "(of_int s :: rat) / of_nat n \<le> of_int T - 1 / of_nat n"
    unfolding div_shift(2) [OF assms(1)] .
  with eighth_le [OF assms(1,2)] have "(of_int s :: rat) / of_nat n \<le> of_int T - 1/8" by linarith
  from to_double_mono [OF this] have "ddiv (of_int s) (of_nat n) \<le> of_int T - 1/8"
    by (simp only: ddiv_def assms(4))
  then show "ddiv (of_int s) (of_nat n) < of_int T" by linarith
qed

lemma ddiv_greater_int:
  fixes s T :: int and n :: nat
  assumes "0 < n" "n \<le> 5" "to_double (of_int T) = of_int T"
    "to_double (of_int T + 1/8) = of_int T + 1/8"
  shows "of_int T < ddiv (of_int s) (of_nat n) \<longleftrightarrow> T * int n < s"
proof
  assume a: "of_int T < ddiv (of_int s) (of_nat n)"
  show "T * int n < s"
  proof (rule ccontr)
    assume "\<not> T * int n < s"
    then have "s \<le> T * int n" by simp
    then have "(of_int s :: rat) \<le> of_int (T * int n)" by (simp only: of_int_le_iff)
    then have "(of_int s :: rat) / of_nat n \<le> (of_int T * of_nat n) / of_nat n"
      by (intro divide_right_mono) simp_all
    then have "of_int s / of_nat n \<le> (of_int T :: rat)"
      unfolding div_shift(3) [OF assms(1)] .
    from to_double_mono [OF this] a show False by (simp add: ddiv_def assms(3))
  qed
next
  assume "T * int n < s"
  then have "T * int n + 1 \<le> s" by simp
  then have "(of_int (T * int n + 1) :: rat) \<le> of_int s" by (simp only: of_int_le_iff)
  then have "(of_int T * of_nat n + 1) / of_nat n \<le> (of_int s :: rat) / of_nat n"
    by (intro divide_right_mono) simp_all
  then have "of_int T + 1 / of_nat n \<le> (of_int s :: rat) / of_nat n"
    unfolding div_shift(1) [OF assms(1)] .
  with eighth_le [OF assms(1,2)] have "of_int T + 1/8 \<le> (of_int s :: rat) / of_nat n" by linarith
  from to_double_mono [OF this] have "of_int T + 1/8 \<le> ddiv (of_int s) (of_nat n)"
    by (simp only: ddiv_def assms(4))
  then show "of_int T < ddiv (of_int s) (of_nat n)" by linarith
qed

lemma threshold_values:
  "to_double (of_int 5000) = of_int 5000" "to_double (of_int 5000 - 1/8) = of_int 5000 - 1/8"
  "to_double (of_int 8000) = of_int 8000" "to_double (of_int 8000 + 1/8) = of_int 8000 + 1/8"
  "to_double (of_int 2) = of_int 2" "to_double (of_int 2 - 1/8) = of_int 2 - 1/8"
  "to_double (of_int 3) = of_int 3" "to_double (of_int 3 + 1/8) = of_int 3 + 1/8"
  by code_simp+

lemma window_exact:
  assumes "0 < length w" "length w \<le> 5"
    "\<forall>r\<in>set w. \<bar>or_default (timeSpent r) 5000\<bar> \<le> 2 ^ 50"
    "\<forall>r\<in>set w. \<bar>or_default (hesitations r) 0\<bar> \<le> 2 ^ 50"
  shows
    "window_avgTime w < 5000 \<longleftrightarrow>
       sum_list (map (\<lambda>r. or_default (timeSpent r) 5000) w) < 5000 * int (length w)"
    "8000 < window_avgTime w \<longleftrightarrow>
       8000 * int (length w) < sum_list (map (\<lambda>r. or_default (timeSpent r) 5000) w)"
    "window_avgHesitations w < 2 \<longleftrightarrow>
       sum_list (map (\<lambda>r. or_default (hesitations r) 0) w) < 2 * int (length w)"
    "3 < window_avgHesitations w \<longleftrightarrow>
       3 * int (length w) < sum_list (map (\<lambda>r. or_default (hesitations r) 0) w)"
proof -
  note T = sum_field_exact [OF assms(2,3), THEN conjunct1]
  note H = sum_field_exact [OF assms(2,4), THEN conjunct1]
  show "window_avgTime w < 5000 \<longleftrightarrow>
       sum_list (map (\<lambda>r. or_default (timeSpent r) 5000) w) < 5000 * int (length w)"
    unfolding window_avgTime_def T
    using ddiv_less_int [OF assms(1,2) threshold_values(1,2)] by simp
  show "8000 < window_avgTime w \<longleftrightarrow>
       8000 * int (length w) < sum_list (map (\<lambda>r. or_default (timeSpent r) 5000) w)"
    unfolding window_avgTime_def T
    using ddiv_greater_int [OF assms(1,2) threshold_values(3,4)] by simp
  show "window_avgHesitations w < 2 \<longleftrightarrow>
       sum_list (map (\<lambda>r. or_default (hesitations r) 0) w) < 2 * int (length w)"
    unfolding window_avgHesitations_def H
    using ddiv_less_int [OF assms(1,2) threshold_values(5,6)] by simp
  show "3 < window_avgHesitations w \<longleftrightarrow>
       3 * int (length w) < sum_list (map (\<lambda>r. or_default (hesitations r) 0) w)"
    unfolding window_avgHesitations_def H
    using ddiv_greater_int [OF assms(1,2) threshold_values(7,8)] by simp
qed

lemma estimator_cascade:
  "(length h < 3 \<longrightarrow> calculateAdaptiveDifficulty h = medium) \<and>
   (3 \<le> length h \<longrightarrow>
      (let w = slice_last 5 h;
           accuracy = window_accuracy w;
           avgTime = window_avgTime w;
           avgHes = window_avgHesitations w;
           good = (to_double (4/5) \<le> accuracy \<and> avgTime < 5000 \<and> avgHes < 2);
           bad = (accuracy < 1/2 \<or> 3 < avgHes \<or> 8000 < avgTime)
       in w = drop (length h - min 5 (length h)) h \<and> length w = min 5 (length h) \<and>
          (to_double (4/5) \<le> accuracy \<longleftrightarrow> 4 * length w \<le> 5 * length (filter correct w)) \<and>
          (accuracy < 1/2 \<longleftrightarrow> 2 * length (filter correct w) < length w) \<and>
          (calculateAdaptiveDifficulty h = hard \<longleftrightarrow> good) \<and>
          (\<not> good \<and> bad \<longrightarrow> calculateAdaptiveDifficulty h = easy) \<and>
          (\<not> good \<and> \<not> bad \<longrightarrow> calculateAdaptiveDifficulty h = medium)))"
proof (intro conjI impI)
  assume "length h < 3"
  then show "calculateAdaptiveDifficulty h = medium"
    by (simp add: calculateAdaptiveDifficulty_def)
next
  assume len: "3 \<le> length h"
  have w: "slice_last 5 h = drop (length h - min 5 (length h)) h"
    by (simp add: slice_last_def min_def)
  note ex = window_accuracy_exact [OF len]
  show "let w = slice_last 5 h;
           accuracy = window_accuracy w;
           avgTime = window_avgTime w;
           avgHes = window_avgHesitations w;
           good = (to_double (4/5) \<le> accuracy \<and> avgTime < 5000 \<and> avgHes < 2);
           bad = (accuracy < 1/2 \<or> 3 < avgHes \<or> 8000 < avgTime)
       in w = drop (length h - min 5 (length h)) h \<and> length w = min 5 (length h) \<and>
          (to_double (4/5) \<le> accuracy \<longleftrightarrow> 4 * length w \<le> 5 * length (filter correct w)) \<and>
          (accuracy < 1/2 \<longleftrightarrow> 2 * length (filter correct w) < length w) \<and>
          (calculateAdaptiveDifficulty h = hard \<longleftrightarrow> good) \<and>
          (\<not> good \<and> bad \<longrightarrow> calculateAdaptiveDifficulty h = easy) \<and>
          (\<not> good \<and> \<not> bad \<longrightarrow> calculateAdaptiveDifficulty h = medium)"
    unfolding Let_def
  proof (intro conjI)
    show "slice_last 5 h = drop (length h - min 5 (length h)) h" by (rule w)
    show "length (slice_last 5 h) = min 5 (length h)" by (rule slice_last_length)
    show "to_double (4/5) \<le> window_accuracy (slice_last 5 h)
            \<longleftrightarrow> 4 * length (slice_last 5 h) \<le> 5 * length (filter correct (slice_last 5 h))"
      using ex by (rule conjunct1)
    show "window_accuracy (slice_last 5 h) < 1/2
            \<longleftrightarrow> 2 * length (filter correct (slice_last 5 h)) < length (slice_last 5 h)"
      using ex by (rule conjunct2)
  qed (use len in \<open>auto simp: calculateAdaptiveDifficulty_def Let_def\<close>)
qed

lemma or_default_zero: "or_default v 0 = (case v of None \<Rightarrow> 0 | Some t \<Rightarrow> t)"
  by (simp add: or_default_def split: option.splits)

lemma ratio_less:
  fixes s c :: int and n :: nat
  assumes "0 < n"
  shows "(of_int s :: rat) / of_nat n < of_int c \<longleftrightarrow> s < c * int n"
proof -
  have "(of_int s :: rat) / of_nat n < of_int c \<longleftrightarrow> (of_int s :: rat) < of_int c * of_nat n"
    using assms by (simp add: pos_divide_less_eq)
  also have "\<dots> \<longleftrightarrow> (of_int s :: rat) < of_int (c * int n)" by simp
  also have "\<dots> \<longleftrightarrow> s < c * int n" by (simp only: of_int_less_iff)
  finally show ?thesis .
qed

lemma ratio_greater:
  fixes s c :: int and n :: nat
  assumes "0 < n"
  shows "(of_int c :: rat) < of_int s / of_nat n \<longleftrightarrow> c * int n < s"
proof -
  have "(of_int c :: rat) < of_int s / of_nat n \<longleftrightarrow> (of_int c :: rat) * of_nat n < of_int s"
    using assms by (simp add: pos_less_divide_eq)
  also have "\<dots> \<longleftrightarrow> (of_int (c * int n) :: rat) < of_int s" by simp
  also have "\<dots> \<longleftrightarrow> c * int n < s" by (simp only: of_int_less_iff)
  finally show ?thesis .
qed

lemma ratio_accuracy:
  fixes k n :: nat
  assumes "0 < n"
  shows "(4/5 :: rat) \<le> of_nat k / of_nat n \<longleftrightarrow> 4 * n \<le> 5 * k"
    "(of_nat k :: rat) / of_nat n < 1/2 \<longleftrightarrow> 2 * k < n"
proof -
  have "(4/5 :: rat) \<le> of_nat k / of_nat n \<longleftrightarrow> (4/5 :: rat) * of_nat n \<le> of_nat k"
    using assms by (simp add: pos_le_divide_eq)
  also have "\<dots> \<longleftrightarrow> (of_nat (4 * n) :: rat) \<le> of_nat (5 * k)" by (simp add: field_simps)
  also have "\<dots> \<longleftrightarrow> 4 * n \<le> 5 * k" by (simp only: of_nat_le_iff)
  finally show "(4/5 :: rat) \<le> of_nat k / of_nat n \<longleftrightarrow> 4 * n \<le> 5 * k" .
  have "(of_nat k :: rat) / of_nat n < 1/2 \<longleftrightarrow> (of_nat k :: rat) < 1/2 * of_nat n"
    using assms by (simp add: pos_divide_less_eq)
  also have "\<dots> \<longleftrightarrow> (of_nat (2 * k) :: rat) < of_nat n" by (simp add: field_simps)
  also have "\<dots> \<longleftrightarrow> 2 * k < n" by (simp only: of_nat_less_iff)
  finally show "(of_nat k :: rat) / of_nat n < 1/2 \<longleftrightarrow> 2 * k < n" .
qed

lemma estimate_spec_unfold:
  assumes "3 \<le> length h"
  shows "estimate_spec h =
     (let w = slice_last 5 h;
          n = length w;
          k = length (filter correct w);
          T = sum_list (map (\<lambda>r. case timeSpent r of None \<Rightarrow> 0 | Some t \<Rightarrow> t) w);
          H = sum_list (map (\<lambda>r. case hesitations r of None \<Rightarrow> 0 | Some c \<Rightarrow> c) w)
      in if 4 * n \<le> 5 * k \<and> T < 5000 * int n \<and> H < 2 * int n then hard
         else if 2 * k < n \<or> 3 * int n < H \<or> 8000 * int n < T then easy
         else medium)"
proof -
  have w: "drop (length h - min 5 (length h)) h = slice_last 5 h"
    by (simp add: slice_last_def min_def)
  have n: "0 < length (slice_last 5 h)" using assms by (auto simp: slice_last_length)
  note R = ratio_accuracy [OF n] ratio_less [OF n, of _ 5000, simplified]
    ratio_less [OF n, of _ 2, simplified] ratio_greater [OF n, of 3, simplified]
    ratio_greater [OF n, of 8000, simplified]
  show ?thesis
    using assms unfolding estimate_spec_def Let_def w R by simp
qed

lemma estimator_exact:
  "3 \<le> length h \<and>
    (\<forall>r\<in>set (slice_last 5 h).
        \<bar>or_default (timeSpent r) 5000\<bar> \<le> 2 ^ 50 \<and> \<bar>or_default (hesitations r) 0\<bar> \<le> 2 ^ 50) \<longrightarrow>
      (let w = slice_last 5 h;
           n = length w;
           k = length (filter correct w);
           T = sum_list (map (\<lambda>r. or_default (timeSpent r) 5000) w);
           H = sum_list (map (\<lambda>r. or_default (hesitations r) 0) w);
           good = (4 * n \<le> 5 * k \<and> T < 5000 * int n \<and> H < 2 * int n);
           bad = (2 * k < n \<or> 3 * int n < H \<or> 8000 * int n < T)
       in (calculateAdaptiveDifficulty h = hard \<longleftrightarrow> good) \<and>
          (calculateAdaptiveDifficulty h = easy \<longleftrightarrow> \<not> good \<and> bad) \<and>
          (calculateAdaptiveDifficulty h = medium \<longleftrightarrow> \<not> good \<and> \<not> bad))"
proof (rule impI)
  assume a: "3 \<le> length h \<and>
    (\<forall>r\<in>set (slice_last 5 h).
        \<bar>or_default (timeSpent r) 5000\<bar> \<le> 2 ^ 50 \<and> \<bar>or_default (hesitations r) 0\<bar> \<le> 2 ^ 50)"
  then have len: "3 \<le> length h" by blast
  have l: "0 < length (slice_last 5 h)" "length (slice_last 5 h) \<le> 5"
    using len by (auto simp: slice_last_length)
  from a have b: "\<forall>r\<in>set (slice_last 5 h). \<bar>or_default (timeSpent r) 5000\<bar> \<le> 2 ^ 50"
    "\<forall>r\<in>set (slice_last 5 h). \<bar>or_default (hesitations r) 0\<bar> \<le> 2 ^ 50" by blast+
  note W = window_exact [OF l b]
  note A1 = window_accuracy_exact [OF len, THEN conjunct1]
  note A2 = window_accuracy_exact [OF len, THEN conjunct2]
  have d: "calculateAdaptiveDifficulty h =
     (if to_double (4/5) \<le> window_accuracy (slice_last 5 h) \<and>
         window_avgTime (slice_last 5 h) < 5000 \<and> window_avgHesitations (slice_last 5 h) < 2
      then hard
      else if window_accuracy (slice_last 5 h) < 1/2 \<or> 3 < window_avgHesitations (slice_last 5 h)
              \<or> 8000 < window_avgTime (slice_last 5 h)
      then easy else medium)"
    using len by (simp add: calculateAdaptiveDifficulty_def Let_def)
  show "let w = slice_last 5 h;
           n = length w;
           k = length (filter correct w);
           T = sum_list (map (\<lambda>r. or_default (timeSpent r) 5000) w);
           H = sum_list (map (\<lambda>r. or_default (hesitations r) 0) w);
           good = (4 * n \<le> 5 * k \<and> T < 5000 * int n \<and> H < 2 * int n);
           bad = (2 * k < n \<or> 3 * int n < H \<or> 8000 * int n < T)
       in (calculateAdaptiveDifficulty h = hard \<longleftrightarrow> good) \<and>
          (calculateAdaptiveDifficulty h = easy \<longleftrightarrow> \<not> good \<and> bad) \<and>
          (calculateAdaptiveDifficulty h = medium \<longleftrightarrow> \<not> good \<and> \<not> bad)"
    unfolding Let_def d A1 A2 W by auto
qed

lemma estimator_refines_spec:
  assumes "3 \<le> length h"
    "\<forall>r\<in>set (slice_last 5 h).
        (\<exists>t. timeSpent r = Some t \<and> t \<noteq> 0 \<and> \<bar>t\<bar> \<le> 2 ^ 50) \<and>
        \<bar>or_default (hesitations r) 0\<bar> \<le> 2 ^ 50"
  shows "calculateAdaptiveDifficulty h = estimate_spec h"
proof -
  have t: "or_default (timeSpent r) 5000 = (case timeSpent r of None \<Rightarrow> 0 | Some t \<Rightarrow> t)"
      "\<bar>or_default (timeSpent r) 5000\<bar> \<le> 2 ^ 50"
    if "r \<in> set (slice_last 5 h)" for r
    using assms(2) that by (auto simp: or_default_def)
  have T: "sum_list (map (\<lambda>r. or_default (timeSpent r) 5000) (slice_last 5 h)) =
           sum_list (map (\<lambda>r. case timeSpent r of None \<Rightarrow> 0 | Some t \<Rightarrow> t) (slice_last 5 h))"
    by (rule arg_cong [where f = sum_list], rule map_cong [OF refl]) (rule t(1))
  have b: "3 \<le> length h \<and>
    (\<forall>r\<in>set (slice_last 5 h).
        \<bar>or_default (timeSpent r) 5000\<bar> \<le> 2 ^ 50 \<and> \<bar>or_default (hesitations r) 0\<bar> \<le> 2 ^ 50)"
    using assms t(2) by blast
  note E = estimator_exact [rule_format, OF b, unfolded Let_def T or_default_zero]
  note S = estimate_spec_unfold [OF assms(1), unfolded Let_def]
  show ?thesis
    using E unfolding S by (cases "calculateAdaptiveDifficulty h") auto
qed

text \<open>
  Claim C2 as stated fails. Three correct attempts, each with \<open>timeSpent\<close> 0 and no
  hesitation, have accuracy 1, average time 0 and average hesitations 0, so that the claim
  rates them \<open>hard\<close>. The code adds \<^verbatim>\<open>r.timeSpent || 5000\<close>, which is 5000 for a
  time of 0: its average time is 5000, the test \<^verbatim>\<open>avgTime < 5000\<close> fails, and the
  rating is \<open>medium\<close>.
\<close>

theorem zero_time_rated_medium:
  "length sample_zero_time = 3 \<and>
   map timeSpent sample_zero_time = [Some 0, Some 0, Some 0] \<and>
   map hesitations sample_zero_time = [Some 0, Some 0, Some 0] \<and>
   map correct sample_zero_time = [True, True, True] \<and>
   estimate_spec sample_zero_time = hard \<and>
   window_avgTime (slice_last 5 sample_zero_time) = 5000 \<and>
   calculateAdaptiveDifficulty sample_zero_time = medium"
  by code_simp

text \<open>
  Claim C2, amended. A history of fewer than three attempts is rated \<open>medium\<close>. A
  longer one is rated on its last \<open>min 5 (length h)\<close> attempts, with the average time
  taken over the times in which a missing or zero \<open>timeSpent\<close> is replaced by 5000, and
  the average hesitations with a missing count as 0: \<open>hard\<close> exactly when the accuracy
  is at least 0.8, that average time below 5000 and the average hesitations below 2;
  \<open>easy\<close> when that fails and the accuracy is below 0.5 or the average hesitations
  above 3 or the average time above 8000; \<open>medium\<close> otherwise. The two accuracy tests
  on the rounded quotient agree with the tests on the exact ratio of the counts, and for
  times and hesitations of magnitude at most \<open>2^50\<close> the tests on the rounded averages
  agree with the tests on the exact sums. When every attempt of the window has a time
  other than zero, the rating is the one of the specification.
\<close>

theorem difficulty_estimator_tiers:
  "((length h < 3 \<longrightarrow> calculateAdaptiveDifficulty h = medium) \<and>
   (3 \<le> length h \<longrightarrow>
      (let w = slice_last 5 h;
           accuracy = window_accuracy w;
           avgTime = window_avgTime w;
           avgHes = window_avgHesitations w;
           good = (to_double (4/5) \<le> accuracy \<and> avgTime < 5000 \<and> avgHes < 2);
           bad = (accuracy < 1/2 \<or> 3 < avgHes \<or> 8000 < avgTime)
       in w = drop (length h - min 5 (length h)) h \<and> length w = min 5 (length h) \<and>
          (to_double (4/5) \<le> accuracy \<longleftrightarrow> 4 * length w \<le> 5 * length (filter correct w)) \<and>
          (accuracy < 1/2 \<longleftrightarrow> 2 * length (filter correct w) < length w) \<and>
          (calculateAdaptiveDifficulty h = hard \<longleftrightarrow> good) \<and>
          (\<not> good \<and> bad \<longrightarrow> calculateAdaptiveDifficulty h = easy) \<and>
          (\<not> good \<and> \<not> bad \<longrightarrow> calculateAdaptiveDifficulty h = medium)))) \<and>
   (3 \<le> length h \<and>
    (\<forall>r\<in>set (slice_last 5 h).
        \<bar>or_default (timeSpent r) 5000\<bar> \<le> 2 ^ 50 \<and> \<bar>or_default (hesitations r) 0\<bar> \<le> 2 ^ 50) \<longrightarrow>
      (let w = slice_last 5 h;
           n = length w;
           k = length (filter correct w);
           T = sum_list (map (\<lambda>r. or_default (timeSpent r) 5000) w);
           H = sum_list (map (\<lambda>r. or_default (hesitations r) 0) w);
           good = (4 * n \<le> 5 * k \<and> T < 5000 * int n \<and> H < 2 * int n);
           bad = (2 * k < n \<or> 3 * int n < H \<or> 8000 * int n < T)
       in (calculateAdaptiveDifficulty h = hard \<longleftrightarrow> good) \<and>
          (calculateAdaptiveDifficulty h = easy \<longleftrightarrow> \<not> good \<and> bad) \<and>
          (calculateAdaptiveDifficulty h = medium \<longleftrightarrow> \<not> good \<and> \<not> bad))) \<and>
   ((length h < 3 \<longrightarrow> estimate_spec h = medium) \<and>
   (3 \<le> length h \<and>
    (\<forall>r\<in>set (slice_last 5 h).
        (\<exists>t. timeSpent r = Some t \<and> t \<noteq> 0 \<and> \<bar>t\<bar> \<le> 2 ^ 50) \<and>
        \<bar>or_default (hesitations r) 0\<bar> \<le> 2 ^ 50) \<longrightarrow>
      calculateAdaptiveDifficulty h = estimate_spec h)) \<and>
   or_default v 5000 = (case v of None \<Rightarrow> 5000 | Some t \<Rightarrow> if t = 0 then 5000 else t) \<and>
   or_default v 0 = (case v of None \<Rightarrow> 0 | Some c \<Rightarrow> c)"
proof -
  note A = estimator_cascade [of h]
  note B = estimator_exact [of h]
  have C: "(length h < 3 \<longrightarrow> estimate_spec h = medium) \<and>
   (3 \<le> length h \<and>
    (\<forall>r\<in>set (slice_last 5 h).
        (\<exists>t. timeSpent r = Some t \<and> t \<noteq> 0 \<and> \<bar>t\<bar> \<le> 2 ^ 50) \<and>
        \<bar>or_default (hesitations r) 0\<bar> \<le> 2 ^ 50) \<longrightarrow>
      calculateAdaptiveDifficulty h = estimate_spec h)"
    using estimator_refines_spec [of h] by (simp add: estimate_spec_def)
  have D: "or_default v 5000 = (case v of None \<Rightarrow> 5000 | Some t \<Rightarrow> if t = 0 then 5000 else t) \<and>
   or_default v 0 = (case v of None \<Rightarrow> 0 | Some c \<Rightarrow> c)"
    by (simp add: or_default_def split: option.splits)
  show ?thesis by (rule conjI [OF A conjI [OF B conjI [OF C D]]])
qed

text \<open>The theorem at the empty history and at three fast, correct attempts.\<close>

theorem difficulty_estimator_tiers_witness:
  "length ([] :: attempt list) < 3 \<and> calculateAdaptiveDifficulty [] = medium \<and>
   estimate_spec [] = medium \<and>
   3 \<le> length sample_fast \<and>
   list_all (\<lambda>r. \<bar>or_default (timeSpent r) 5000\<bar> \<le> 2 ^ 50 \<and> \<bar>or_default (hesitations r) 0\<bar> \<le> 2 ^ 50)
     (slice_last 5 sample_fast) \<and>
   map timeSpent (slice_last 5 sample_fast) = [Some 1000, Some 2000, Some 3000] \<and>
   sum_list (map (\<lambda>r. or_default (timeSpent r) 5000) (slice_last 5 sample_fast)) = 6000 \<and>
   sum_list (map (\<lambda>r. or_default (hesitations r) 0) (slice_last 5 sample_fast)) = 1 \<and>
   length (filter correct (slice_last 5 sample_fast)) = 3 \<and>
   calculateAdaptiveDifficulty sample_fast = hard \<and>
   estimate_spec sample_fast = hard"
proof -
  have short: "length ([] :: attempt list) < 3" by simp
  have long: "3 \<le> length sample_fast" by (simp add: sample_fast_def)
  have vals: "length (slice_last 5 sample_fast) = 3"
    "sum_list (map (\<lambda>r. or_default (timeSpent r) 5000) (slice_last 5 sample_fast)) = 6000"
    "sum_list (map (\<lambda>r. or_default (hesitations r) 0) (slice_last 5 sample_fast)) = 1"
    "length (filter correct (slice_last 5 sample_fast)) = 3"
    by (simp_all add: sample_fast_def slice_last_def or_default_def)
  have times: "map timeSpent (slice_last 5 sample_fast) = [Some 1000, Some 2000, Some 3000]"
    by (simp add: sample_fast_def slice_last_def)
  have bound: "\<forall>r\<in>set (slice_last 5 sample_fast).
        \<bar>or_default (timeSpent r) 5000\<bar> \<le> 2 ^ 50 \<and> \<bar>or_default (hesitations r) 0\<bar> \<le> 2 ^ 50"
    by (simp add: sample_fast_def slice_last_def or_default_def)
  have timed: "\<forall>r\<in>set (slice_last 5 sample_fast).
        (\<exists>t. timeSpent r = Some t \<and> t \<noteq> 0 \<and> \<bar>t\<bar> \<le> 2 ^ 50) \<and>
        \<bar>or_default (hesitations r) 0\<bar> \<le> 2 ^ 50"
    by (simp add: sample_fast_def slice_last_def or_default_def)
  note T0 = difficulty_estimator_tiers [of "[]"]
  note T1 = difficulty_estimator_tiers [of sample_fast]
  from T0 short have e: "calculateAdaptiveDifficulty [] = medium" "estimate_spec [] = medium"
    by blast+
  have "3 \<le> length sample_fast \<and>
    (\<forall>r\<in>set (slice_last 5 sample_fast).
        \<bar>or_default (timeSpent r) 5000\<bar> \<le> 2 ^ 50 \<and> \<bar>or_default (hesitations r) 0\<bar> \<le> 2 ^ 50)"
    using long bound by (rule conjI)
  with T1 [THEN conjunct2, THEN conjunct1]
  have h: "calculateAdaptiveDifficulty sample_fast = hard"
    unfolding Let_def vals by simp
  have "3 \<le> length sample_fast \<and>
    (\<forall>r\<in>set (slice_last 5 sample_fast).
        (\<exists>t. timeSpent r = Some t \<and> t \<noteq> 0 \<and> \<bar>t\<bar> \<le> 2 ^ 50) \<and>
        \<bar>or_default (hesitations r) 0\<bar> \<le> 2 ^ 50)"
    using long timed by (rule conjI)
  with T1 [THEN conjunct2, THEN conjunct2, THEN conjunct1, THEN conjunct2]
  have "calculateAdaptiveDifficulty sample_fast = estimate_spec sample_fast" by (rule mp)
  with h have s: "estimate_spec sample_fast = hard" by simp
  show ?thesis using short long vals bound times e h s by (simp add: list_all_iff)
qed



section \<open>Performance analyzer: accuracy and emotional state\<close>

lemma analyze_unfold:
  "analyzeResultsLocally rnd xs =
     \<lparr>problematicLetters =
        sort_desc (count_of (fst (count_letters xs))) (Object_keys (fst (count_letters xs))),
      confusionPatterns = confusion_entries (snd (snd (count_letters xs))),
      strengths =
        sort_desc (count_of (fst (snd (count_letters xs))))
          (filter (\<lambda>l. count_of (fst (count_letters xs)) l \<le> count_of (fst (snd (count_letters xs))) l)
             (Object_keys (fst (snd (count_letters xs))))),
      overallAccuracy = overallAccuracy_of xs,
      recommendations =
        build_recommendations
          (sort_desc (count_of (fst (count_letters xs))) (Object_keys (fst (count_letters xs))))
          (confusion_entries (snd (snd (count_letters xs))))
          (avgHesitations_of xs) (overallAccuracy_of xs) (avgTimeSpent_of xs),
      severity =
        fst (if overallAccuracy_of xs < 60 then (severe, struggling)
             else if overallAccuracy_of xs < 80 then (moderate, challenged)
             else if 90 \<le> overallAccuracy_of xs then (mild, excelling)
             else (mild, confident)),
      emotionalState =
        (if 5/2 < avgHesitations_of xs \<or> 7000 < avgTimeSpent_of xs then frustrated
         else snd (if overallAccuracy_of xs < 60 then (severe, struggling)
                   else if overallAccuracy_of xs < 80 then (moderate, challenged)
                   else if 90 \<le> overallAccuracy_of xs then (mild, excelling)
                   else (mild, confident))),
      performanceMetrics =
        \<lparr>avgTimeSpent = Math_round (avgTimeSpent_of xs),
         totalHesitations = totalHesitations_of xs,
         avgHesitations = toFixed1 (avgHesitations_of xs),
         isImproving =
           (of_int (overallAccuracy_of xs) <
              (if 0 < length (slice_last 5 xs)
               then dmul (ddiv (of_nat (length (filter correct (slice_last 5 xs))))
                            (of_nat (length (slice_last 5 xs)))) 100
               else 0)),
         recentAccuracy =
           Math_round
             (if 0 < length (slice_last 5 xs)
              then dmul (ddiv (of_nat (length (filter correct (slice_last 5 xs))))
                           (of_nat (length (slice_last 5 xs)))) 100
              else 0)\<rparr>,
      encouragement =
        getEncouragementMessage rnd
          (if 5/2 < avgHesitations_of xs \<or> 7000 < avgTimeSpent_of xs then frustrated
           else snd (if overallAccuracy_of xs < 60 then (severe, struggling)
                     else if overallAccuracy_of xs < 80 then (moderate, challenged)
                     else if 90 \<le> overallAccuracy_of xs then (mild, excelling)
                     else (mild, confident)))
          (overallAccuracy_of xs)\<rparr>"
  unfolding analyzeResultsLocally_def Let_def case_prod_beta ..

lemma analyze_overallAccuracy:
  "overallAccuracy (analyzeResultsLocally rnd xs) = overallAccuracy_of xs"
  by (simp add: analyze_unfold)

lemma analyze_severity:
  "severity (analyzeResultsLocally rnd xs) =
     (if overallAccuracy_of xs < 60 then severe
      else if overallAccuracy_of xs < 80 then moderate else mild)"
  by (simp add: analyze_unfold)

lemma analyze_emotionalState:
  "emotionalState (analyzeResultsLocally rnd xs) =
     (if 5/2 < avgHesitations_of xs \<or> 7000 < avgTimeSpent_of xs then frustrated
      else if overallAccuracy_of xs < 60 then struggling
      else if overallAccuracy_of xs < 80 then challenged
      else if 90 \<le> overallAccuracy_of xs then excelling
      else confident)"
  by (simp add: analyze_unfold)

lemma analyze_letters:
  "problematicLetters (analyzeResultsLocally rnd xs) =
     sort_desc (count_of (fst (count_letters xs))) (Object_keys (fst (count_letters xs)))"
  "strengths (analyzeResultsLocally rnd xs) =
     sort_desc (count_of (fst (snd (count_letters xs))))
       (filter (\<lambda>l. count_of (fst (count_letters xs)) l \<le> count_of (fst (snd (count_letters xs))) l)
          (Object_keys (fst (snd (count_letters xs)))))"
  "confusionPatterns (analyzeResultsLocally rnd xs) =
     confusion_entries (snd (snd (count_letters xs)))"
  by (simp_all add: analyze_unfold)

lemma analyze_encouragement:
  "encouragement (analyzeResultsLocally rnd xs) =
     pickRandom rnd (messages (emotionalState (analyzeResultsLocally rnd xs)))"
  by (simp add: analyze_unfold getEncouragementMessage_def)

lemma sum_field_exact_all:
  assumes "sum_list (map (\<lambda>r. \<bar>or_default (fld r) d\<bar>) w) \<le> 2 ^ 53"
  shows "sum_field fld d w = of_int (sum_list (map (\<lambda>r. or_default (fld r) d) w))"
  using assms
proof (induction w rule: rev_induct)
  case Nil
  then show ?case by (simp add: sum_field_def)
next
  case (snoc r w)
  define S where "S = sum_list (map (\<lambda>r. or_default (fld r) d) w)"
  define A where "A = sum_list (map (\<lambda>r. \<bar>or_default (fld r) d\<bar>) w)"
  define v where "v = or_default (fld r) d"
  have SA: "\<bar>S\<bar> \<le> A"
    using sum_list_abs [of "map (\<lambda>r. or_default (fld r) d) w"]
    by (simp add: S_def A_def o_def)
  from snoc.prems have p: "A + \<bar>v\<bar> \<le> 2 ^ 53" by (simp add: A_def v_def)
  then have "A \<le> 2 ^ 53" by linarith
  then have ih: "sum_field fld d w = of_int S" using snoc.IH by (simp add: A_def S_def)
  have "\<bar>S + v\<bar> \<le> 2 ^ 53" using SA p by linarith
  then have "to_double (of_int (S + v)) = of_int (S + v)" by (rule to_double_of_int)
  then have "sum_field fld d (w @ [r]) = of_int (S + v)"
    by (simp add: sum_field_snoc ih dadd_def v_def)
  then show ?case by (simp add: S_def v_def)
qed

lemma to_double_gt_iff:
  assumes "to_double c = c" "to_double (c + g) = c + g" "0 < g"
    "c < x \<Longrightarrow> c + g \<le> x"
  shows "c < to_double x \<longleftrightarrow> c < x"
proof
  assume a: "c < to_double x"
  show "c < x"
  proof (rule ccontr)
    assume "\<not> c < x"
    then have "x \<le> c" by simp
    from to_double_mono [OF this] a assms(1) show False by simp
  qed
next
  assume "c < x"
  then have "c + g \<le> x" by (rule assms(4))
  from to_double_mono [OF this] have "c + g \<le> to_double x" by (simp only: assms(2))
  with assms(3) show "c < to_double x" by linarith
qed

lemma override_thresholds:
  "to_double 7000 = 7000" "to_double (7000 + 1 / 2 ^ 33) = 7000 + 1 / 2 ^ 33"
  "to_double (5/2) = 5/2" "to_double (5/2 + 1 / 2 ^ 33) = 5/2 + 1 / 2 ^ 33"
  by code_simp+

lemma small_gap:
  fixes n :: nat
  assumes "0 < n" "n < 2 ^ 32"
  shows "(1::rat) / 2 ^ 33 \<le> 1 / (2 * of_nat n)"
proof -
  from assms(2) have "(of_nat n :: rat) < of_nat (2 ^ 32)" by (simp only: of_nat_less_iff)
  then have "(of_nat n :: rat) \<le> 2 ^ 32" by simp
  then have "2 * (of_nat n :: rat) \<le> 2 ^ 33" by simp
  moreover have "(0::rat) < 2 * of_nat n" using assms(1) by simp
  ultimately show ?thesis by (intro frac_le) simp_all
qed

lemma ddiv_gt_7000:
  fixes s :: int and n :: nat
  assumes "0 < n" "n < 2 ^ 32"
  shows "7000 < ddiv (of_int s) (of_nat n) \<longleftrightarrow> 7000 * int n < s"
proof -
  define x :: rat where "x = of_int s / of_nat n"
  define g :: rat where "g = 1 / 2 ^ 33"
  have npos: "(0::rat) < of_nat n" using assms(1) by simp
  have iff: "7000 < x \<longleftrightarrow> 7000 * int n < s"
    unfolding x_def using ratio_greater [OF assms(1), of 7000 s] by simp
  have half: "(1::rat) / (2 * of_nat n) \<le> 1 / of_nat n"
    using npos by (intro frac_le) simp_all
  have gap: "7000 + g \<le> x" if "7000 < x"
  proof -
    from that iff have "7000 * int n + 1 \<le> s" by simp
    then have "(of_int (7000 * int n + 1) :: rat) \<le> of_int s" by (simp only: of_int_le_iff)
    then have "(7000 * of_nat n + 1) / of_nat n \<le> (of_int s :: rat) / of_nat n"
      by (intro divide_right_mono) simp_all
    then have "7000 + 1 / of_nat n \<le> x"
      unfolding div_shift(1) [OF assms(1)] x_def .
    with small_gap [OF assms] half show ?thesis unfolding g_def by linarith
  qed
  have gpos: "0 < g" by (simp add: g_def)
  have "7000 < to_double x \<longleftrightarrow> 7000 < x"
    by (rule to_double_gt_iff [OF override_thresholds(1) override_thresholds(2) [folded g_def] gpos gap])
  with iff show ?thesis by (simp add: ddiv_def x_def)
qed

lemma ddiv_gt_5_2:
  fixes s :: int and n :: nat
  assumes "0 < n" "n < 2 ^ 32"
  shows "5/2 < ddiv (of_int s) (of_nat n) \<longleftrightarrow> 5 * int n < 2 * s"
proof -
  define x :: rat where "x = of_int s / of_nat n"
  define g :: rat where "g = 1 / 2 ^ 33"
  define m :: rat where "m = of_nat n"
  have npos: "0 < m" using assms(1) by (simp add: m_def)
  have "5/2 < x \<longleftrightarrow> 5/2 * m < of_int s"
    unfolding x_def m_def using assms(1) by (simp add: pos_less_divide_eq)
  also have "\<dots> \<longleftrightarrow> (of_int (5 * int n) :: rat) < of_int (2 * s)"
    by (simp add: m_def mult.commute)
  also have "\<dots> \<longleftrightarrow> 5 * int n < 2 * s" by (simp only: of_int_less_iff)
  finally have iff: "5/2 < x \<longleftrightarrow> 5 * int n < 2 * s" .
  have gap: "5/2 + g \<le> x" if "5/2 < x"
  proof -
    from that iff have "5 * int n + 1 \<le> 2 * s" by simp
    then have "(of_int (5 * int n + 1) :: rat) \<le> of_int (2 * s)" by (simp only: of_int_le_iff)
    then have "5 * m + 1 \<le> 2 * of_int s" by (simp add: m_def)
    then have "(5 * m + 1) / (2 * m) \<le> (2 * of_int s) / (2 * m)"
      using npos by (intro divide_right_mono) simp_all
    moreover have "(5 * m + 1) / (2 * m) = 5/2 + 1 / (2 * m)"
      using npos by (simp add: add_divide_distrib)
    moreover have "(2 * of_int s) / (2 * m) = x" by (simp add: x_def m_def)
    ultimately have "5/2 + 1 / (2 * m) \<le> x" by simp
    with small_gap [OF assms] show ?thesis unfolding g_def m_def by linarith
  qed
  have gpos: "0 < g" by (simp add: g_def)
  have "5/2 < to_double x \<longleftrightarrow> 5/2 < x"
    by (rule to_double_gt_iff [OF override_thresholds(3) override_thresholds(4) [folded g_def] gpos gap])
  with iff show ?thesis by (simp add: ddiv_def x_def)
qed

lemma avgTimeSpent_exact:
  assumes "sum_list (map (\<lambda>r. \<bar>case timeSpent r of None \<Rightarrow> 0 | Some t \<Rightarrow> t\<bar>) xs) \<le> 2 ^ 53"
  shows "avgTimeSpent_of xs =
     (if length xs = 0 then 0
      else ddiv (of_int (sum_list (map (\<lambda>r. case timeSpent r of None \<Rightarrow> 0 | Some t \<Rightarrow> t) xs))) (of_nat (length xs)))"
  using sum_field_exact_all [of timeSpent 0 xs, unfolded or_default_zero, OF assms]
  by (simp add: avgTimeSpent_of_def)

lemma avgHesitations_exact:
  assumes "sum_list (map (\<lambda>r. \<bar>case hesitations r of None \<Rightarrow> 0 | Some c \<Rightarrow> c\<bar>) xs) \<le> 2 ^ 53"
  shows "avgHesitations_of xs =
     (if length xs = 0 then 0
      else ddiv (of_int (sum_list (map (\<lambda>r. case hesitations r of None \<Rightarrow> 0 | Some c \<Rightarrow> c) xs))) (of_nat (length xs)))"
  using sum_field_exact_all [of hesitations 0 xs, unfolded or_default_zero, OF assms]
  by (simp add: avgHesitations_of_def totalHesitations_of_def)

lemma time_override_exact:
  assumes "length xs < 2 ^ 32" "sum_list (map (\<lambda>r. \<bar>case timeSpent r of None \<Rightarrow> 0 | Some t \<Rightarrow> t\<bar>) xs) \<le> 2 ^ 53"
  shows "7000 < avgTimeSpent_of xs \<longleftrightarrow> 7000 * int (length xs) < sum_list (map (\<lambda>r. case timeSpent r of None \<Rightarrow> 0 | Some t \<Rightarrow> t) xs)"
proof (cases "length xs = 0")
  case True
  then show ?thesis by (simp add: avgTimeSpent_of_def)
next
  case False
  then have l: "0 < length xs" by simp
  show ?thesis
    unfolding avgTimeSpent_exact [OF assms(2)] using False ddiv_gt_7000 [OF l assms(1)]
    by simp
qed

lemma hesitation_override_exact:
  assumes "length xs < 2 ^ 32" "sum_list (map (\<lambda>r. \<bar>case hesitations r of None \<Rightarrow> 0 | Some c \<Rightarrow> c\<bar>) xs) \<le> 2 ^ 53"
  shows "5/2 < avgHesitations_of xs \<longleftrightarrow> 5 * int (length xs) < 2 * sum_list (map (\<lambda>r. case hesitations r of None \<Rightarrow> 0 | Some c \<Rightarrow> c) xs)"
proof (cases "length xs = 0")
  case True
  then show ?thesis by (simp add: avgHesitations_of_def)
next
  case False
  then have l: "0 < length xs" by simp
  show ?thesis
    unfolding avgHesitations_exact [OF assms(2)] using False ddiv_gt_5_2 [OF l assms(1)]
    by simp
qed

lemma ddiv_40_10: "ddiv 40 10 = 4" "Math_round (dmul (ddiv 4 10) 100) = 40"
  by code_simp+

text \<open>
  Claim C1. The emotional state is \<open>struggling\<close> below 60, \<open>challenged\<close> below
  80, \<open>excelling\<close> from 90 and \<open>confident\<close> otherwise, and \<open>frustrated\<close>
  replaces any of them when the average hesitations exceed 2.5 or the average time
  exceeds 7000. The two averages are those of the attempts: for a list of fewer than
  \<open>2^32\<close> attempts (every array is) whose times and hesitations, a missing one counting
  as zero, have absolute values that sum to at most \<open>2^53\<close>, the sums are exact, the average
  is the rounded quotient of the sum by the number of attempts, and the two tests on
  the rounded averages are the tests \<open>7000 * n < T\<close> and \<open>5 * n < 2 * H\<close> on the sum
  \<open>T\<close> of the times and the sum \<open>H\<close> of the hesitations. Ten attempts with four
  correct and 40 hesitations in all, which is an average of 4, are \<open>frustrated\<close>,
  their accuracy 40 and severity \<open>severe\<close> notwithstanding.
\<close>

theorem emotional_state_classification:
  "emotionalState (analyzeResultsLocally rnd xs) =
     (if 5/2 < avgHesitations_of xs \<or> 7000 < avgTimeSpent_of xs then frustrated
      else if overallAccuracy (analyzeResultsLocally rnd xs) < 60 then struggling
      else if overallAccuracy (analyzeResultsLocally rnd xs) < 80 then challenged
      else if 90 \<le> overallAccuracy (analyzeResultsLocally rnd xs) then excelling
      else confident) \<and>
   (length xs = 10 \<and> length (filter correct xs) = 4 \<and> avgHesitations_of xs = 4 \<longrightarrow>
      overallAccuracy (analyzeResultsLocally rnd xs) = 40 \<and>
      severity (analyzeResultsLocally rnd xs) = severe \<and>
      emotionalState (analyzeResultsLocally rnd xs) = frustrated) \<and>
   (length xs < 2 ^ 32 \<and>
    sum_list (map (\<lambda>r. \<bar>case timeSpent r of None \<Rightarrow> 0 | Some t \<Rightarrow> t\<bar>) xs) \<le> 2 ^ 53 \<and>
    sum_list (map (\<lambda>r. \<bar>case hesitations r of None \<Rightarrow> 0 | Some c \<Rightarrow> c\<bar>) xs) \<le> 2 ^ 53 \<longrightarrow>
      (let n = length xs;
           T = sum_list (map (\<lambda>r. case timeSpent r of None \<Rightarrow> 0 | Some t \<Rightarrow> t) xs);
           H = sum_list (map (\<lambda>r. case hesitations r of None \<Rightarrow> 0 | Some c \<Rightarrow> c) xs)
       in avgTimeSpent_of xs = (if n = 0 then 0 else ddiv (of_int T) (of_nat n)) \<and>
          avgHesitations_of xs = (if n = 0 then 0 else ddiv (of_int H) (of_nat n)) \<and>
          (7000 < avgTimeSpent_of xs \<longleftrightarrow> 7000 * int n < T) \<and>
          (5/2 < avgHesitations_of xs \<longleftrightarrow> 5 * int n < 2 * H) \<and>
          emotionalState (analyzeResultsLocally rnd xs) =
            (if 5 * int n < 2 * H \<or> 7000 * int n < T then frustrated
             else if overallAccuracy (analyzeResultsLocally rnd xs) < 60 then struggling
             else if overallAccuracy (analyzeResultsLocally rnd xs) < 80 then challenged
             else if 90 \<le> overallAccuracy (analyzeResultsLocally rnd xs) then excelling
             else confident))) \<and>
   (length xs = 10 \<and> length (filter correct xs) = 4 \<and>
    sum_list (map (\<lambda>r. case hesitations r of None \<Rightarrow> 0 | Some c \<Rightarrow> c) xs) = 40 \<and>
    sum_list (map (\<lambda>r. \<bar>case hesitations r of None \<Rightarrow> 0 | Some c \<Rightarrow> c\<bar>) xs) \<le> 2 ^ 53 \<longrightarrow>
      avgHesitations_of xs = 4 \<and>
      overallAccuracy (analyzeResultsLocally rnd xs) = 40 \<and>
      severity (analyzeResultsLocally rnd xs) = severe \<and>
      emotionalState (analyzeResultsLocally rnd xs) = frustrated)"
proof -
  have c1: "emotionalState (analyzeResultsLocally rnd xs) =
     (if 5/2 < avgHesitations_of xs \<or> 7000 < avgTimeSpent_of xs then frustrated
      else if overallAccuracy (analyzeResultsLocally rnd xs) < 60 then struggling
      else if overallAccuracy (analyzeResultsLocally rnd xs) < 80 then challenged
      else if 90 \<le> overallAccuracy (analyzeResultsLocally rnd xs) then excelling
      else confident)"
    by (simp only: analyze_overallAccuracy analyze_emotionalState)
  have acc: "overallAccuracy (analyzeResultsLocally rnd xs) = 40 \<and>
      severity (analyzeResultsLocally rnd xs) = severe"
    if "length xs = 10" "length (filter correct xs) = 4"
    using that
    by (simp add: analyze_overallAccuracy analyze_severity overallAccuracy_of_def ddiv_40_10)
  have c2: "length xs = 10 \<and> length (filter correct xs) = 4 \<and> avgHesitations_of xs = 4 \<longrightarrow>
      overallAccuracy (analyzeResultsLocally rnd xs) = 40 \<and>
      severity (analyzeResultsLocally rnd xs) = severe \<and>
      emotionalState (analyzeResultsLocally rnd xs) = frustrated"
    using acc by (simp add: analyze_emotionalState)
  have c3: "length xs < 2 ^ 32 \<and>
    sum_list (map (\<lambda>r. \<bar>case timeSpent r of None \<Rightarrow> 0 | Some t \<Rightarrow> t\<bar>) xs) \<le> 2 ^ 53 \<and>
    sum_list (map (\<lambda>r. \<bar>case hesitations r of None \<Rightarrow> 0 | Some c \<Rightarrow> c\<bar>) xs) \<le> 2 ^ 53 \<longrightarrow>
      (let n = length xs;
           T = sum_list (map (\<lambda>r. case timeSpent r of None \<Rightarrow> 0 | Some t \<Rightarrow> t) xs);
           H = sum_list (map (\<lambda>r. case hesitations r of None \<Rightarrow> 0 | Some c \<Rightarrow> c) xs)
       in avgTimeSpent_of xs = (if n = 0 then 0 else ddiv (of_int T) (of_nat n)) \<and>
          avgHesitations_of xs = (if n = 0 then 0 else ddiv (of_int H) (of_nat n)) \<and>
          (7000 < avgTimeSpent_of xs \<longleftrightarrow> 7000 * int n < T) \<and>
          (5/2 < avgHesitations_of xs \<longleftrightarrow> 5 * int n < 2 * H) \<and>
          emotionalState (analyzeResultsLocally rnd xs) =
            (if 5 * int n < 2 * H \<or> 7000 * int n < T then frustrated
             else if overallAccuracy (analyzeResultsLocally rnd xs) < 60 then struggling
             else if overallAccuracy (analyzeResultsLocally rnd xs) < 80 then challenged
             else if 90 \<le> overallAccuracy (analyzeResultsLocally rnd xs) then excelling
             else confident))"
  proof (rule impI)
    assume a: "length xs < 2 ^ 32 \<and>
    sum_list (map (\<lambda>r. \<bar>case timeSpent r of None \<Rightarrow> 0 | Some t \<Rightarrow> t\<bar>) xs) \<le> 2 ^ 53 \<and>
    sum_list (map (\<lambda>r. \<bar>case hesitations r of None \<Rightarrow> 0 | Some c \<Rightarrow> c\<bar>) xs) \<le> 2 ^ 53"
    then have len: "length xs < 2 ^ 32"
      and t: "sum_list (map (\<lambda>r. \<bar>case timeSpent r of None \<Rightarrow> 0 | Some t \<Rightarrow> t\<bar>) xs) \<le> 2 ^ 53"
      and h: "sum_list (map (\<lambda>r. \<bar>case hesitations r of None \<Rightarrow> 0 | Some c \<Rightarrow> c\<bar>) xs) \<le> 2 ^ 53"
      by blast+
    note T = time_override_exact [OF len t]
    note H = hesitation_override_exact [OF len h]
    show "(let n = length xs;
           T = sum_list (map (\<lambda>r. case timeSpent r of None \<Rightarrow> 0 | Some t \<Rightarrow> t) xs);
           H = sum_list (map (\<lambda>r. case hesitations r of None \<Rightarrow> 0 | Some c \<Rightarrow> c) xs)
       in avgTimeSpent_of xs = (if n = 0 then 0 else ddiv (of_int T) (of_nat n)) \<and>
          avgHesitations_of xs = (if n = 0 then 0 else ddiv (of_int H) (of_nat n)) \<and>
          (7000 < avgTimeSpent_of xs \<longleftrightarrow> 7000 * int n < T) \<and>
          (5/2 < avgHesitations_of xs \<longleftrightarrow> 5 * int n < 2 * H) \<and>
          emotionalState (analyzeResultsLocally rnd xs) =
            (if 5 * int n < 2 * H \<or> 7000 * int n < T then frustrated
             else if overallAccuracy (analyzeResultsLocally rnd xs) < 60 then struggling
             else if overallAccuracy (analyzeResultsLocally rnd xs) < 80 then challenged
             else if 90 \<le> overallAccuracy (analyzeResultsLocally rnd xs) then excelling
             else confident))"
      unfolding Let_def
    proof (intro conjI)
      show "avgTimeSpent_of xs =
         (if length xs = 0 then 0
          else ddiv (of_int (sum_list (map (\<lambda>r. case timeSpent r of None \<Rightarrow> 0 | Some t \<Rightarrow> t) xs)))
                 (of_nat (length xs)))"
        by (rule avgTimeSpent_exact [OF t])
      show "avgHesitations_of xs =
         (if length xs = 0 then 0
          else ddiv (of_int (sum_list (map (\<lambda>r. case hesitations r of None \<Rightarrow> 0 | Some c \<Rightarrow> c) xs)))
                 (of_nat (length xs)))"
        by (rule avgHesitations_exact [OF h])
      show "7000 < avgTimeSpent_of xs \<longleftrightarrow>
         7000 * int (length xs) < sum_list (map (\<lambda>r. case timeSpent r of None \<Rightarrow> 0 | Some t \<Rightarrow> t) xs)"
        by (rule T)
      show "5/2 < avgHesitations_of xs \<longleftrightarrow>
         5 * int (length xs) < 2 * sum_list (map (\<lambda>r. case hesitations r of None \<Rightarrow> 0 | Some c \<Rightarrow> c) xs)"
        by (rule H)
      show "emotionalState (analyzeResultsLocally rnd xs) =
        (if 5 * int (length xs) < 2 * sum_list (map (\<lambda>r. case hesitations r of None \<Rightarrow> 0 | Some c \<Rightarrow> c) xs) \<or>
            7000 * int (length xs) < sum_list (map (\<lambda>r. case timeSpent r of None \<Rightarrow> 0 | Some t \<Rightarrow> t) xs)
         then frustrated
         else if overallAccuracy (analyzeResultsLocally rnd xs) < 60 then struggling
         else if overallAccuracy (analyzeResultsLocally rnd xs) < 80 then challenged
         else if 90 \<le> overallAccuracy (analyzeResultsLocally rnd xs) then excelling
         else confident)"
        unfolding T [symmetric] H [symmetric] by (rule c1)
    qed
  qed
  have c4: "length xs = 10 \<and> length (filter correct xs) = 4 \<and>
    sum_list (map (\<lambda>r. case hesitations r of None \<Rightarrow> 0 | Some c \<Rightarrow> c) xs) = 40 \<and>
    sum_list (map (\<lambda>r. \<bar>case hesitations r of None \<Rightarrow> 0 | Some c \<Rightarrow> c\<bar>) xs) \<le> 2 ^ 53 \<longrightarrow>
      avgHesitations_of xs = 4 \<and>
      overallAccuracy (analyzeResultsLocally rnd xs) = 40 \<and>
      severity (analyzeResultsLocally rnd xs) = severe \<and>
      emotionalState (analyzeResultsLocally rnd xs) = frustrated"
  proof (rule impI)
    assume a: "length xs = 10 \<and> length (filter correct xs) = 4 \<and>
    sum_list (map (\<lambda>r. case hesitations r of None \<Rightarrow> 0 | Some c \<Rightarrow> c) xs) = 40 \<and>
    sum_list (map (\<lambda>r. \<bar>case hesitations r of None \<Rightarrow> 0 | Some c \<Rightarrow> c\<bar>) xs) \<le> 2 ^ 53"
    then have len: "length xs = 10" and k: "length (filter correct xs) = 4"
      and s: "sum_list (map (\<lambda>r. case hesitations r of None \<Rightarrow> 0 | Some c \<Rightarrow> c) xs) = 40"
      and h: "sum_list (map (\<lambda>r. \<bar>case hesitations r of None \<Rightarrow> 0 | Some c \<Rightarrow> c\<bar>) xs) \<le> 2 ^ 53"
      by blast+
    have avg: "avgHesitations_of xs = 4"
      unfolding avgHesitations_exact [OF h] s len by (simp add: ddiv_40_10)
    then have "emotionalState (analyzeResultsLocally rnd xs) = frustrated"
      by (simp add: analyze_emotionalState)
    with avg acc [OF len k] show "avgHesitations_of xs = 4 \<and>
      overallAccuracy (analyzeResultsLocally rnd xs) = 40 \<and>
      severity (analyzeResultsLocally rnd xs) = severe \<and>
      emotionalState (analyzeResultsLocally rnd xs) = frustrated"
      by simp
  qed
  show ?thesis by (rule conjI [OF c1 conjI [OF c2 conjI [OF c3 c4]]])
qed

text \<open>
  The theorem at ten attempts, four correct, four hesitations each; at two correct
  attempts of 8000 and 7000 milliseconds without hesitation, where the time alone makes
  the state \<open>frustrated\<close>; and at three fast, correct attempts, where nothing does.
\<close>

theorem emotional_state_classification_witness:
  "length sample_hesitant = 10 \<and> length (filter correct sample_hesitant) = 4 \<and>
   map hesitations sample_hesitant = replicate 10 (Some 4) \<and>
   avgHesitations_of sample_hesitant = 4 \<and>
   emotionalState (analyzeResultsLocally 0 sample_hesitant) = frustrated \<and>
   map timeSpent sample_slow = [Some 8000, Some 7000] \<and>
   map hesitations sample_slow = [Some 0, None] \<and>
   overallAccuracy (analyzeResultsLocally 0 sample_slow) = 100 \<and>
   avgTimeSpent_of sample_slow = 7500 \<and>
   emotionalState (analyzeResultsLocally 0 sample_slow) = frustrated \<and>
   map timeSpent sample_fast = [Some 1000, Some 2000, Some 3000] \<and>
   map hesitations sample_fast = [Some 0, Some 1, None] \<and>
   emotionalState (analyzeResultsLocally 0 sample_fast) = excelling"
proof -
  have hes: "length sample_hesitant = 10" "length (filter correct sample_hesitant) = 4"
    "map hesitations sample_hesitant = replicate 10 (Some 4)"
    "sum_list (map (\<lambda>r. case hesitations r of None \<Rightarrow> 0 | Some c \<Rightarrow> c) sample_hesitant) = 40"
    "sum_list (map (\<lambda>r. \<bar>case hesitations r of None \<Rightarrow> 0 | Some c \<Rightarrow> c\<bar>) sample_hesitant) = 40"
    by code_simp+
  have slow: "length sample_slow = 2"
    "map timeSpent sample_slow = [Some 8000, Some 7000]"
    "map hesitations sample_slow = [Some 0, None]"
    "sum_list (map (\<lambda>r. case timeSpent r of None \<Rightarrow> 0 | Some t \<Rightarrow> t) sample_slow) = 15000"
    "sum_list (map (\<lambda>r. \<bar>case timeSpent r of None \<Rightarrow> 0 | Some t \<Rightarrow> t\<bar>) sample_slow) = 15000"
    "sum_list (map (\<lambda>r. case hesitations r of None \<Rightarrow> 0 | Some c \<Rightarrow> c) sample_slow) = 0"
    "sum_list (map (\<lambda>r. \<bar>case hesitations r of None \<Rightarrow> 0 | Some c \<Rightarrow> c\<bar>) sample_slow) = 0"
    by (simp_all add: sample_slow_def)
  have fast: "length sample_fast = 3"
    "map timeSpent sample_fast = [Some 1000, Some 2000, Some 3000]"
    "map hesitations sample_fast = [Some 0, Some 1, None]"
    "sum_list (map (\<lambda>r. case timeSpent r of None \<Rightarrow> 0 | Some t \<Rightarrow> t) sample_fast) = 6000"
    "sum_list (map (\<lambda>r. \<bar>case timeSpent r of None \<Rightarrow> 0 | Some t \<Rightarrow> t\<bar>) sample_fast) = 6000"
    "sum_list (map (\<lambda>r. case hesitations r of None \<Rightarrow> 0 | Some c \<Rightarrow> c) sample_fast) = 1"
    "sum_list (map (\<lambda>r. \<bar>case hesitations r of None \<Rightarrow> 0 | Some c \<Rightarrow> c\<bar>) sample_fast) = 1"
    by (simp_all add: sample_fast_def)
  have vals: "ddiv 15000 2 = 7500" "overallAccuracy_of sample_slow = 100"
    "overallAccuracy_of sample_fast = 100"
    by code_simp+
  note H = emotional_state_classification [of 0 sample_hesitant, THEN conjunct2, THEN conjunct2,
      THEN conjunct2, unfolded hes]
  note S = emotional_state_classification [of 0 sample_slow, THEN conjunct2, THEN conjunct2,
      THEN conjunct1, unfolded Let_def slow analyze_overallAccuracy vals]
  note F = emotional_state_classification [of 0 sample_fast, THEN conjunct2, THEN conjunct2,
      THEN conjunct1, unfolded Let_def fast analyze_overallAccuracy vals]
  from H have h: "avgHesitations_of sample_hesitant = 4"
    "emotionalState (analyzeResultsLocally 0 sample_hesitant) = frustrated" by simp_all
  from S vals(1) have s: "avgTimeSpent_of sample_slow = 7500"
    "emotionalState (analyzeResultsLocally 0 sample_slow) = frustrated" by simp_all
  from F have f: "emotionalState (analyzeResultsLocally 0 sample_fast) = excelling" by simp
  show ?thesis
    using hes(1-3) slow(2,3) fast(2,3) h s f vals(2) by (simp add: analyze_overallAccuracy)
qed

text \<open>
  Claim C5 as stated fails: with 23 correct attempts of 40 the quotient \<open>23/40\<close>
  rounds to a binary64 value below 0.575, its product with 100 rounds to a value below
  57.5, and \<^verbatim>\<open>Math.round\<close> gives 57, while \<open>round (100 * 23 / 40) = 58\<close>.
\<close>

theorem accuracy_not_exact_round:
  "length sample_23_of_40 = 40 \<and> length (filter correct sample_23_of_40) = 23 \<and>
   overallAccuracy (analyzeResultsLocally 0 sample_23_of_40) = 57 \<and>
   round (100 * (of_nat (length (filter correct sample_23_of_40)) :: rat)
            / of_nat (length sample_23_of_40)) = 58"
  unfolding analyze_overallAccuracy by code_simp


lemma to_double_consts: "to_double 0 = 0" "to_double 1 = 1" "to_double 100 = 100"
  by code_simp+

lemma to_double_pos: "0 < x \<Longrightarrow> 0 < to_double x"
  by (simp add: to_double_def round_pos_pos)

lemma percent_range:
  assumes "c \<le> t" "0 < t"
  shows "0 \<le> dmul (ddiv (of_nat c) (of_nat t)) 100" "dmul (ddiv (of_nat c) (of_nat t)) 100 \<le> 100"
proof -
  have q: "0 \<le> (of_nat c :: rat) / of_nat t" "(of_nat c :: rat) / of_nat t \<le> 1"
    using assms by simp_all
  have y0: "0 \<le> ddiv (of_nat c) (of_nat t)"
    unfolding ddiv_def using q(1) by (rule to_double_nonneg)
  have y1: "ddiv (of_nat c) (of_nat t) \<le> 1"
    unfolding ddiv_def using to_double_mono [OF q(2)] by (simp add: to_double_consts)
  show "0 \<le> dmul (ddiv (of_nat c) (of_nat t)) 100"
    unfolding dmul_def using y0 by (intro to_double_nonneg) simp
  have "ddiv (of_nat c) (of_nat t) * 100 \<le> 100" using y1 by simp
  from to_double_mono [OF this] show "dmul (ddiv (of_nat c) (of_nat t)) 100 \<le> 100"
    by (simp add: dmul_def to_double_consts)
qed

lemma overallAccuracy_of_range: "0 \<le> overallAccuracy_of xs" "overallAccuracy_of xs \<le> 100"
proof -
  have c: "length (filter correct xs) \<le> length xs" by (rule length_filter_le)
  show "0 \<le> overallAccuracy_of xs"
  proof (cases "xs = []")
    case True
    then show ?thesis by (simp add: overallAccuracy_of_def)
  next
    case False
    then have t: "0 < length xs" by simp
    from percent_range(1) [OF c t] have "0 \<le> Math_round (dmul (ddiv (of_nat (length (filter correct xs))) (of_nat (length xs))) 100)"
      unfolding Math_round_def by linarith
    with t show ?thesis by (simp add: overallAccuracy_of_def Let_def)
  qed
  show "overallAccuracy_of xs \<le> 100"
  proof (cases "xs = []")
    case True
    then show ?thesis by (simp add: overallAccuracy_of_def)
  next
    case False
    then have t: "0 < length xs" by simp
    from percent_range(2) [OF c t] have "Math_round (dmul (ddiv (of_nat (length (filter correct xs))) (of_nat (length xs))) 100) \<le> 100"
      unfolding Math_round_def by linarith
    with t show ?thesis by (simp add: overallAccuracy_of_def Let_def)
  qed
qed

lemma percent_error:
  assumes "c \<le> t" "0 < t"
  shows "\<bar>dmul (ddiv (of_nat c) (of_nat t)) 100 - 100 * of_nat c / of_nat t\<bar> \<le> 200 / 2 ^ 53"
proof (cases "c = 0")
  case True
  then show ?thesis by (simp add: ddiv_def dmul_def to_double_consts)
next
  case False
  define q :: rat where "q = of_nat c / of_nat t"
  define y where "y = to_double q"
  define p where "p = y * 100"
  have qpos: "0 < q" and q1: "q \<le> 1" using assms False by (simp_all add: q_def)
  have ypos: "0 < y" unfolding y_def using qpos by (rule to_double_pos)
  have y1: "y \<le> 1" unfolding y_def using to_double_mono [OF q1] by (simp add: to_double_consts)
  have e1: "\<bar>y - q\<bar> \<le> q / 2 ^ 53" unfolding y_def using qpos by (rule to_double_rel_err)
  have "q / 2 ^ 53 \<le> 1 / 2 ^ 53" using q1 by (simp add: divide_right_mono)
  with e1 have e1': "\<bar>y - q\<bar> \<le> 1 / 2 ^ 53" by linarith
  have ppos: "0 < p" using ypos by (simp add: p_def)
  have e2: "\<bar>to_double p - p\<bar> \<le> p / 2 ^ 53" using ppos by (rule to_double_rel_err)
  have "p \<le> 100" using y1 by (simp add: p_def)
  then have "p / 2 ^ 53 \<le> 100 / 2 ^ 53" by (simp add: divide_right_mono)
  with e2 have e2': "\<bar>to_double p - p\<bar> \<le> 100 / 2 ^ 53" by linarith
  have "\<bar>p - 100 * q\<bar> = 100 * \<bar>y - q\<bar>" by (simp add: p_def abs_if)
  with e1' have e3: "\<bar>p - 100 * q\<bar> \<le> 100 / 2 ^ 53" by simp
  have "\<bar>to_double p - 100 * q\<bar> \<le> 200 / 2 ^ 53" using e2' e3 by linarith
  then show ?thesis by (simp add: dmul_def ddiv_def p_def y_def q_def)
qed

lemma floor_near:
  fixes v X e :: rat
  assumes "\<bar>v - X\<bar> \<le> e" "X + 1/2 = of_int k + of_int m / of_int D"
    "0 < D" "0 \<le> m" "m < D" "e < 1 / of_int D"
  shows "(m \<noteq> 0 \<longrightarrow> \<lfloor>v + 1/2\<rfloor> = k) \<and> (\<lfloor>v + 1/2\<rfloor> = k \<or> \<lfloor>v + 1/2\<rfloor> = k - 1)"
proof -
  have Dq: "(0::rat) < of_int D" using assms(3) by simp
  have D1: "1 / (of_int D :: rat) \<le> 1" using assms(3) by simp
  show ?thesis
  proof (cases "m = 0")
    case True
    with assms(2) have "X + 1/2 = of_int k" by simp
    with assms(1,6) D1 have "of_int k - 1 < v + 1/2" "v + 1/2 < of_int k + 1" by linarith+
    then have "k - 1 \<le> \<lfloor>v + 1/2\<rfloor>" "\<lfloor>v + 1/2\<rfloor> \<le> k" by linarith+
    with True show ?thesis by auto
  next
    case False
    with assms(4) have "1 \<le> m" by simp
    then have lo: "1 / of_int D \<le> (of_int m :: rat) / of_int D"
      using Dq by (simp add: divide_right_mono)
    have "m \<le> D - 1" using assms(5) by simp
    then have "(of_int m :: rat) \<le> of_int D - 1" by (metis of_int_1 of_int_diff of_int_le_iff)
    then have "(of_int m :: rat) / of_int D \<le> (of_int D - 1) / of_int D"
      using Dq by (simp add: divide_right_mono)
    also have "\<dots> = 1 - 1 / of_int D" using Dq by (simp add: diff_divide_distrib)
    finally have hi: "(of_int m :: rat) / of_int D \<le> 1 - 1 / of_int D" .
    from assms(1,2,6) lo hi have "of_int k \<le> v + 1/2" "v + 1/2 < of_int k + 1" by linarith+
    then have "\<lfloor>v + 1/2\<rfloor> = k" by linarith
    then show ?thesis by simp
  qed
qed


lemma percent_round:
  fixes c t :: nat
  assumes "c \<le> t" "0 < t" "t < 2 ^ 32"
  shows "(\<not> (2 * t) dvd (200 * c + t) \<longrightarrow>
            Math_round (dmul (ddiv (of_nat c) (of_nat t)) 100) = round (100 * of_nat c / of_nat t :: rat)) \<and>
         (Math_round (dmul (ddiv (of_nat c) (of_nat t)) 100) = round (100 * of_nat c / of_nat t :: rat) \<or>
          Math_round (dmul (ddiv (of_nat c) (of_nat t)) 100) = round (100 * of_nat c / of_nat t :: rat) - 1)"
proof -
  define N :: int where "N = 200 * int c + int t"
  define D :: int where "D = 2 * int t"
  define k where "k = N div D"
  define m where "m = N mod D"
  define X :: rat where "X = 100 * of_nat c / of_nat t"
  define v where "v = dmul (ddiv (of_nat c) (of_nat t)) 100"
  have Dpos: "0 < D" using assms(2) by (simp add: D_def)
  have m0: "0 \<le> m" and mD: "m < D" using Dpos by (simp_all add: m_def)
  have N: "N = D * k + m" by (simp add: k_def m_def)
  have Dq: "(of_int D :: rat) \<noteq> 0" using Dpos by simp
  have "X + 1/2 = of_int N / of_int D"
    using assms(2) by (simp add: X_def N_def D_def field_simps)
  also have "\<dots> = of_int k + of_int m / of_int D"
    unfolding N using Dq by (simp add: field_simps)
  finally have X: "X + 1/2 = of_int k + of_int m / of_int D" .
  have "D < 2 ^ 33" using assms(3) by (simp add: D_def)
  then have "(of_int D :: rat) < 2 ^ 33" by (metis of_int_less_iff of_int_numeral of_int_power)
  then have "(1::rat) / 2 ^ 33 < 1 / of_int D"
    using Dpos by (simp add: field_simps)
  then have e: "(200::rat) / 2 ^ 53 < 1 / of_int D" by simp
  have err: "\<bar>v - X\<bar> \<le> 200 / 2 ^ 53"
    unfolding v_def X_def by (rule percent_error [OF assms(1,2)])
  note F = floor_near [OF err X Dpos m0 mD e]
  have frac: "0 \<le> (of_int m :: rat) / of_int D" "(of_int m :: rat) / of_int D < 1"
    using m0 mD Dpos by simp_all
  have r: "round X = k" unfolding round_def using X frac by linarith
  have dv: "(2 * t) dvd (200 * c + t) \<longleftrightarrow> m = 0"
  proof -
    have "(2 * t) dvd (200 * c + t) \<longleftrightarrow> int (2 * t) dvd int (200 * c + t)"
      by (simp only: int_dvd_int_iff)
    also have "\<dots> \<longleftrightarrow> D dvd N" by (simp add: D_def N_def)
    also have "\<dots> \<longleftrightarrow> m = 0" by (auto simp: m_def dvd_eq_mod_eq_0)
    finally show ?thesis .
  qed
  show ?thesis
    using F unfolding Math_round_def v_def [symmetric] X_def [symmetric] r dv by blast
qed

text \<open>
  Claim C5, amended. The accuracy is 0 for the empty list and otherwise \<^verbatim>\<open>Math.round\<close>
  of the binary64 product of the binary64 quotient \<open>correct / total\<close> with 100; it is an
  integer between 0 and 100. For a list shorter than \<open>2^32\<close> (the bound on the length
  of an array) it is \<open>round (100 * correct / total)\<close> or one less, and it is
  \<open>round (100 * correct / total)\<close> whenever \<open>100 * correct / total\<close> is not exactly
  halfway between two integers.
\<close>

theorem overallAccuracy_rounding:
  "overallAccuracy (analyzeResultsLocally rnd xs) =
     (if xs = [] then 0
      else Math_round (dmul (ddiv (of_nat (length (filter correct xs))) (of_nat (length xs))) 100)) \<and>
   0 \<le> overallAccuracy (analyzeResultsLocally rnd xs) \<and>
   overallAccuracy (analyzeResultsLocally rnd xs) \<le> 100 \<and>
   (length xs < 2 ^ 32 \<longrightarrow>
      (overallAccuracy (analyzeResultsLocally rnd xs)
         = round (100 * of_nat (length (filter correct xs)) / of_nat (length xs) :: rat) \<or>
       overallAccuracy (analyzeResultsLocally rnd xs)
         = round (100 * of_nat (length (filter correct xs)) / of_nat (length xs) :: rat) - 1) \<and>
      (\<not> (2 * length xs) dvd (200 * length (filter correct xs) + length xs) \<longrightarrow>
         overallAccuracy (analyzeResultsLocally rnd xs)
           = round (100 * of_nat (length (filter correct xs)) / of_nat (length xs) :: rat)))"
proof (intro conjI impI)
  show "overallAccuracy (analyzeResultsLocally rnd xs) =
     (if xs = [] then 0
      else Math_round (dmul (ddiv (of_nat (length (filter correct xs))) (of_nat (length xs))) 100))"
    by (simp add: analyze_overallAccuracy overallAccuracy_of_def Let_def)
  show "0 \<le> overallAccuracy (analyzeResultsLocally rnd xs)"
    "overallAccuracy (analyzeResultsLocally rnd xs) \<le> 100"
    by (simp_all only: analyze_overallAccuracy overallAccuracy_of_range)
next
  assume len: "length xs < 2 ^ 32"
  have c: "length (filter correct xs) \<le> length xs" by (rule length_filter_le)
  show "overallAccuracy (analyzeResultsLocally rnd xs)
         = round (100 * of_nat (length (filter correct xs)) / of_nat (length xs) :: rat) \<or>
       overallAccuracy (analyzeResultsLocally rnd xs)
         = round (100 * of_nat (length (filter correct xs)) / of_nat (length xs) :: rat) - 1"
  proof (cases "xs = []")
    case True
    then show ?thesis by (simp add: analyze_overallAccuracy overallAccuracy_of_def)
  next
    case False
    then have t: "0 < length xs" by simp
    from percent_round [OF c t len] t show ?thesis
      by (simp add: analyze_overallAccuracy overallAccuracy_of_def Let_def)
  qed
next
  assume len: "length xs < 2 ^ 32"
    and nd: "\<not> (2 * length xs) dvd (200 * length (filter correct xs) + length xs)"
  have c: "length (filter correct xs) \<le> length xs" by (rule length_filter_le)
  have t: "0 < length xs" using nd by (cases "xs = []") auto
  from percent_round [OF c t len] nd t
  show "overallAccuracy (analyzeResultsLocally rnd xs)
           = round (100 * of_nat (length (filter correct xs)) / of_nat (length xs) :: rat)"
    by (simp add: analyze_overallAccuracy overallAccuracy_of_def Let_def)
qed

lemma sample_hesitant_counts:
  "length sample_hesitant = 10" "length (filter correct sample_hesitant) = 4"
  by (simp_all add: sample_hesitant_def)

text \<open>The theorem at ten attempts, four of them correct.\<close>

theorem overallAccuracy_rounding_witness:
  "length sample_hesitant < 2 ^ 32 \<and>
   \<not> (2 * length sample_hesitant) dvd
        (200 * length (filter correct sample_hesitant) + length sample_hesitant) \<and>
   round (100 * of_nat (length (filter correct sample_hesitant))
            / of_nat (length sample_hesitant) :: rat) = 40 \<and>
   overallAccuracy (analyzeResultsLocally 0 sample_hesitant) = 40"
proof -
  have h: "length sample_hesitant < 2 ^ 32"
    "\<not> (2 * length sample_hesitant) dvd
        (200 * length (filter correct sample_hesitant) + length sample_hesitant)"
    "round (100 * of_nat (length (filter correct sample_hesitant))
            / of_nat (length sample_hesitant) :: rat) = 40"
    by (simp_all add: sample_hesitant_counts)
  with overallAccuracy_rounding [of 0 sample_hesitant] show ?thesis by simp
qed

section \<open>Performance analyzer: scenario, determinism and missing input\<close>

lemma cat_letters:
  "count_letters (cat_history t1 t2 t3 t4 t5 h1 h2 h3 h4 h5) =
     ([(CHR ''c'', 2)], [(CHR ''c'', 3), (CHR ''a'', 5), (CHR ''t'', 5)],
      [(CHR ''c'', [(CHR ''b'', 1), (CHR ''k'', 1)])])"
  by code_simp

lemma cat_entries:
  "confusion_entries [(CHR ''c'', [(CHR ''b'', 1), (CHR ''k'', 1)])] =
     [\<lparr>confuses = CHR ''b'', withLetter = CHR ''c'', frequency = 1\<rparr>,
      \<lparr>confuses = CHR ''k'', withLetter = CHR ''c'', frequency = 1\<rparr>]"
  by code_simp

lemma cat_keys:
  "sort_desc (count_of [(CHR ''c'', 2)]) (Object_keys [(CHR ''c'', 2::nat)]) = ''c''"
  by code_simp

lemma percent_3_of_5: "Math_round (dmul (ddiv 3 5) 100) = 60"
  by code_simp

text \<open>
  Claim C9. Five attempts on the word cat, typed cat, bat, cat, kat, cat, the two
  misspelled ones marked incorrect, whatever their times and hesitations: the error
  count of the letter c is 2, c is the only problematic letter, the confusion patterns
  contain c mistyped as b once and c mistyped as k once, and the accuracy is 60.
\<close>

theorem cat_scenario:
  "count_of (fst (count_letters (cat_history t1 t2 t3 t4 t5 h1 h2 h3 h4 h5))) CHR ''c'' = 2 \<and>
   problematicLetters (analyzeResultsLocally rnd (cat_history t1 t2 t3 t4 t5 h1 h2 h3 h4 h5)) = ''c'' \<and>
   \<lparr>confuses = CHR ''b'', withLetter = CHR ''c'', frequency = 1\<rparr>
     \<in> set (confusionPatterns (analyzeResultsLocally rnd (cat_history t1 t2 t3 t4 t5 h1 h2 h3 h4 h5))) \<and>
   \<lparr>confuses = CHR ''k'', withLetter = CHR ''c'', frequency = 1\<rparr>
     \<in> set (confusionPatterns (analyzeResultsLocally rnd (cat_history t1 t2 t3 t4 t5 h1 h2 h3 h4 h5))) \<and>
   overallAccuracy (analyzeResultsLocally rnd (cat_history t1 t2 t3 t4 t5 h1 h2 h3 h4 h5)) = 60"
proof (intro conjI)
  show "count_of (fst (count_letters (cat_history t1 t2 t3 t4 t5 h1 h2 h3 h4 h5))) CHR ''c'' = 2"
    by (simp add: cat_letters count_of_def)
  show "problematicLetters (analyzeResultsLocally rnd (cat_history t1 t2 t3 t4 t5 h1 h2 h3 h4 h5)) = ''c''"
    by (simp add: analyze_letters cat_letters cat_keys)
  show "\<lparr>confuses = CHR ''b'', withLetter = CHR ''c'', frequency = 1\<rparr>
     \<in> set (confusionPatterns (analyzeResultsLocally rnd (cat_history t1 t2 t3 t4 t5 h1 h2 h3 h4 h5)))"
    unfolding analyze_letters cat_letters snd_conv cat_entries by simp
  show "\<lparr>confuses = CHR ''k'', withLetter = CHR ''c'', frequency = 1\<rparr>
     \<in> set (confusionPatterns (analyzeResultsLocally rnd (cat_history t1 t2 t3 t4 t5 h1 h2 h3 h4 h5)))"
    unfolding analyze_letters cat_letters snd_conv cat_entries by simp
  show "overallAccuracy (analyzeResultsLocally rnd (cat_history t1 t2 t3 t4 t5 h1 h2 h3 h4 h5)) = 60"
    by (simp add: analyze_overallAccuracy overallAccuracy_of_def cat_history_def percent_3_of_5)
qed

text \<open>The theorem at one choice of times and hesitations.\<close>

theorem cat_scenario_witness:
  "overallAccuracy (analyzeResultsLocally 0
     (cat_history (Some 1200) None (Some 900) (Some 4000) None None (Some 2) None (Some 1) None)) = 60 \<and>
   problematicLetters (analyzeResultsLocally 0
     (cat_history (Some 1200) None (Some 900) (Some 4000) None None (Some 2) None (Some 1) None)) = ''c''"
  using cat_scenario [of "Some 1200" None "Some 900" "Some 4000" None None "Some 2" None "Some 1" None 0]
  by simp

text \<open>
  Claim C7. Two analyses of one attempt list, with whatever two values of
  \<^verbatim>\<open>Math.random()\<close>, have the same accuracy, letters, strengths, confusion patterns,
  severity, emotional state, metrics and recommendations; the second result is the first
  with its encouragement replaced. The encouragement is the pick that the random value
  makes in the pool of the emotional state; it can differ between two calls, and two
  calls whose random values make the same pick return the same result.
\<close>

theorem analysis_deterministic:
  "analyzeResultsLocally r1 xs =
     (analyzeResultsLocally r2 xs)
       \<lparr>encouragement :=
          getEncouragementMessage r1 (emotionalState (analyzeResultsLocally r2 xs))
            (overallAccuracy (analyzeResultsLocally r2 xs))\<rparr> \<and>
   overallAccuracy (analyzeResultsLocally r1 xs) = overallAccuracy (analyzeResultsLocally r2 xs) \<and>
   problematicLetters (analyzeResultsLocally r1 xs) = problematicLetters (analyzeResultsLocally r2 xs) \<and>
   strengths (analyzeResultsLocally r1 xs) = strengths (analyzeResultsLocally r2 xs) \<and>
   confusionPatterns (analyzeResultsLocally r1 xs) = confusionPatterns (analyzeResultsLocally r2 xs) \<and>
   severity (analyzeResultsLocally r1 xs) = severity (analyzeResultsLocally r2 xs) \<and>
   emotionalState (analyzeResultsLocally r1 xs) = emotionalState (analyzeResultsLocally r2 xs) \<and>
   performanceMetrics (analyzeResultsLocally r1 xs) = performanceMetrics (analyzeResultsLocally r2 xs) \<and>
   recommendations (analyzeResultsLocally r1 xs) = recommendations (analyzeResultsLocally r2 xs) \<and>
   encouragement (analyzeResultsLocally r1 xs) =
     pickRandom r1 (messages (emotionalState (analyzeResultsLocally r1 xs))) \<and>
   (\<exists>ra rb ys. encouragement (analyzeResultsLocally ra ys) \<noteq> encouragement (analyzeResultsLocally rb ys)) \<and>
   (pickRandom r1 (messages (emotionalState (analyzeResultsLocally r2 xs)))
      = pickRandom r2 (messages (emotionalState (analyzeResultsLocally r2 xs))) \<longrightarrow>
    analyzeResultsLocally r1 xs = analyzeResultsLocally r2 xs)"
proof -
  have eq: "analyzeResultsLocally r1 xs =
     (analyzeResultsLocally r2 xs)
       \<lparr>encouragement :=
          getEncouragementMessage r1 (emotionalState (analyzeResultsLocally r2 xs))
            (overallAccuracy (analyzeResultsLocally r2 xs))\<rparr>"
    unfolding analyze_unfold [of r1] analyze_unfold [of r2] by simp
  have "encouragement (analyzeResultsLocally 0 []) = Some (Message struggling 0)"
    "encouragement (analyzeResultsLocally (1/2) []) = Some (Message struggling 1)"
    unfolding analyze_encouragement analyze_emotionalState by code_simp+
  then have "encouragement (analyzeResultsLocally 0 []) \<noteq> encouragement (analyzeResultsLocally (1/2) [])"
    by simp
  then have diff: "\<exists>ra rb ys. encouragement (analyzeResultsLocally ra ys)
      \<noteq> encouragement (analyzeResultsLocally rb ys)" by blast
  have fields:
    "overallAccuracy (analyzeResultsLocally r1 xs) = overallAccuracy (analyzeResultsLocally r2 xs)"
    "problematicLetters (analyzeResultsLocally r1 xs) = problematicLetters (analyzeResultsLocally r2 xs)"
    "strengths (analyzeResultsLocally r1 xs) = strengths (analyzeResultsLocally r2 xs)"
    "confusionPatterns (analyzeResultsLocally r1 xs) = confusionPatterns (analyzeResultsLocally r2 xs)"
    "severity (analyzeResultsLocally r1 xs) = severity (analyzeResultsLocally r2 xs)"
    "emotionalState (analyzeResultsLocally r1 xs) = emotionalState (analyzeResultsLocally r2 xs)"
    "performanceMetrics (analyzeResultsLocally r1 xs) = performanceMetrics (analyzeResultsLocally r2 xs)"
    "recommendations (analyzeResultsLocally r1 xs) = recommendations (analyzeResultsLocally r2 xs)"
    by (subst eq, simp)+
  have same: "pickRandom r1 (messages (emotionalState (analyzeResultsLocally r2 xs)))
      = pickRandom r2 (messages (emotionalState (analyzeResultsLocally r2 xs))) \<longrightarrow>
    analyzeResultsLocally r1 xs = analyzeResultsLocally r2 xs"
  proof
    assume p: "pickRandom r1 (messages (emotionalState (analyzeResultsLocally r2 xs)))
      = pickRandom r2 (messages (emotionalState (analyzeResultsLocally r2 xs)))"
    have "getEncouragementMessage r1 (emotionalState (analyzeResultsLocally r2 xs))
            (overallAccuracy (analyzeResultsLocally r2 xs))
          = encouragement (analyzeResultsLocally r2 xs)"
      unfolding analyze_encouragement getEncouragementMessage_def Let_def using p .
    with eq show "analyzeResultsLocally r1 xs = analyzeResultsLocally r2 xs" by simp
  qed
  from eq analyze_encouragement [of r1 xs] diff fields same show ?thesis by (intro conjI)
qed

text \<open>The theorem at the random values 0 and 1/2 on ten hesitant attempts.\<close>

theorem analysis_deterministic_witness:
  "encouragement (analyzeResultsLocally 0 sample_hesitant) = Some (Message frustrated 0) \<and>
   encouragement (analyzeResultsLocally (1/2) sample_hesitant) = Some (Message frustrated 1) \<and>
   recommendations (analyzeResultsLocally 0 sample_hesitant)
     = recommendations (analyzeResultsLocally (1/2) sample_hesitant)"
proof -
  have "avgHesitations_of sample_hesitant = 4" by code_simp
  then have "emotionalState (analyzeResultsLocally 0 sample_hesitant) = frustrated"
    "emotionalState (analyzeResultsLocally (1/2) sample_hesitant) = frustrated"
    by (simp_all add: analyze_emotionalState)
  moreover have "pickRandom 0 (messages frustrated) = Some (Message frustrated 0)"
    "pickRandom (1/2) (messages frustrated) = Some (Message frustrated 1)"
    by code_simp+
  ultimately have "encouragement (analyzeResultsLocally 0 sample_hesitant) = Some (Message frustrated 0)"
    "encouragement (analyzeResultsLocally (1/2) sample_hesitant) = Some (Message frustrated 1)"
    by (simp_all add: analyze_encouragement)
  with analysis_deterministic [of 0 sample_hesitant "1/2"] show ?thesis by simp
qed








section \<open>Performance analyzer: letters and strengths\<close>

lemma align_length: "length (align t u) = max (length t) (length u)"
  by (induction t u rule: align.induct) auto

lemma align_nth:
  "i < max (length t) (length u) \<Longrightarrow>
     align t u ! i = (if i < length t then Some (t ! i) else None,
                      if i < length u then Some (u ! i) else None)"
proof (induction t u arbitrary: i rule: align.induct)
  case 1
  then show ?case by simp
next
  case (2 t ts)
  then show ?case by (cases i) auto
next
  case (3 u us)
  then show ?case by (cases i) auto
next
  case (4 t ts u us)
  then show ?case by (cases i) auto
qed

lemma map_of_obj_put: "map_of (obj_put k v ob) = (map_of ob)(k \<mapsto> v)"
  by (induction k v ob rule: obj_put.induct) (auto simp: fun_eq_iff)

lemma keys_obj_put: "fst ` set (obj_put k v ob) = insert k (fst ` set ob)"
  by (induction k v ob rule: obj_put.induct) auto

lemma count_of_obj_add:
  "count_of (obj_add k w ob) l = (if l = k then count_of ob k + w else count_of ob l)"
  by (simp add: count_of_def obj_add_def map_of_obj_put)

lemma keys_obj_add: "fst ` set (obj_add k w ob) = insert k (fst ` set ob)"
  by (simp add: obj_add_def keys_obj_put)

lemma keys_positive_empty: "keys_positive []"
  by (simp add: keys_positive_def count_of_def)

lemma keys_positive_add: "keys_positive ob \<Longrightarrow> 0 < w \<Longrightarrow> keys_positive (obj_add k w ob)"
  unfolding keys_positive_def by (auto simp: count_of_obj_add keys_obj_add)

lemma set_Object_entries: "set (Object_entries ob) = set ob"
  by (auto simp: Object_entries_def)

lemma set_Object_keys: "set (Object_keys ob) = fst ` set ob"
  by (simp add: Object_keys_def set_Object_entries)

lemma set_sort_desc: "set (sort_desc f xs) = set xs"
  by (simp add: sort_desc_def)

lemma sorted_sort_desc: "sorted (map (\<lambda>x. - int (f x)) (sort_desc f xs))"
  by (simp add: sort_desc_def)

lemma count_position_err:
  "count_of (fst (count_position T p)) l =
     count_of (fst T) l + (if fst p = Some l \<and> snd p \<noteq> Some l then 1 else 0)"
proof -
  obtain err ok conf where T: "T = (err, ok, conf)" by (cases T)
  obtain t u where p: "p = (t, u)" by (cases p)
  show ?thesis by (cases t) (auto simp: T p count_of_obj_add)
qed

lemma count_position_ok:
  "count_of (fst (snd (count_position T p))) l =
     count_of (fst (snd T)) l + (if fst p = Some l \<and> snd p = Some l then 1 else 0)"
proof -
  obtain err ok conf where T: "T = (err, ok, conf)" by (cases T)
  obtain t u where p: "p = (t, u)" by (cases p)
  show ?thesis by (cases t) (auto simp: T p count_of_obj_add)
qed

lemma count_position_keys:
  "keys_positive (fst T) \<Longrightarrow> keys_positive (fst (count_position T p))"
  "keys_positive (fst (snd T)) \<Longrightarrow> keys_positive (fst (snd (count_position T p)))"
proof -
  obtain err ok conf where T: "T = (err, ok, conf)" by (cases T)
  obtain t u where p: "p = (t, u)" by (cases p)
  show "keys_positive (fst T) \<Longrightarrow> keys_positive (fst (count_position T p))"
    by (cases t) (auto simp: T p keys_positive_add)
  show "keys_positive (fst (snd T)) \<Longrightarrow> keys_positive (fst (snd (count_position T p)))"
    by (cases t) (auto simp: T p keys_positive_add)
qed

lemma count_positions_fold:
  "count_of (fst (foldl count_position T ps)) l =
     count_of (fst T) l + length (filter (\<lambda>(t, u). t = Some l \<and> u \<noteq> Some l) ps)"
  "count_of (fst (snd (foldl count_position T ps))) l =
     count_of (fst (snd T)) l + length (filter (\<lambda>(t, u). t = Some l \<and> u = Some l) ps)"
proof (induction ps arbitrary: T)
  case Nil
  { case 1 show ?case by simp }
  { case 2 show ?case by simp }
next
  case (Cons p ps)
  { case 1 show ?case by (simp add: Cons.IH(1) count_position_err case_prod_beta) }
  { case 2 show ?case by (simp add: Cons.IH(2) count_position_ok case_prod_beta) }
qed

lemma count_positions_keys:
  "keys_positive (fst T) \<Longrightarrow> keys_positive (fst (foldl count_position T ps))"
  "keys_positive (fst (snd T)) \<Longrightarrow> keys_positive (fst (snd (foldl count_position T ps)))"
  by (induction ps arbitrary: T) (simp_all add: count_position_keys)

lemma count_letters_fold:
  "count_of (fst (foldl (\<lambda>tables item. foldl count_position tables
        (align (toLowerCase (word item)) (toLowerCase (input item)))) T xs)) l
     = count_of (fst T) l + error_count_spec xs l"
  "count_of (fst (snd (foldl (\<lambda>tables item. foldl count_position tables
        (align (toLowerCase (word item)) (toLowerCase (input item)))) T xs))) l
     = count_of (fst (snd T)) l + ok_count_spec xs l"
  by (induction xs arbitrary: T)
     (simp_all add: error_count_spec_def ok_count_spec_def count_positions_fold)

lemma count_letters_keys_fold:
  "keys_positive (fst T) \<Longrightarrow>
   keys_positive (fst (foldl (\<lambda>tables item. foldl count_position tables
        (align (toLowerCase (word item)) (toLowerCase (input item)))) T xs))"
  "keys_positive (fst (snd T)) \<Longrightarrow>
   keys_positive (fst (snd (foldl (\<lambda>tables item. foldl count_position tables
        (align (toLowerCase (word item)) (toLowerCase (input item)))) T xs)))"
  by (induction xs arbitrary: T) (simp_all add: count_positions_keys)

lemma count_letters_counts:
  "count_of (fst (count_letters xs)) l = error_count_spec xs l"
  "count_of (fst (snd (count_letters xs))) l = ok_count_spec xs l"
  unfolding count_letters_def Let_def count_letters_fold by (simp_all add: count_of_def)

lemma count_letters_keys:
  "l \<in> fst ` set (fst (count_letters xs)) \<longleftrightarrow> 0 < error_count_spec xs l"
  "l \<in> fst ` set (fst (snd (count_letters xs))) \<longleftrightarrow> 0 < ok_count_spec xs l"
proof -
  have "keys_positive (fst (count_letters xs))" "keys_positive (fst (snd (count_letters xs)))"
    unfolding count_letters_def Let_def
    by (rule count_letters_keys_fold; simp add: keys_positive_empty)+
  then show "l \<in> fst ` set (fst (count_letters xs)) \<longleftrightarrow> 0 < error_count_spec xs l"
    "l \<in> fst ` set (fst (snd (count_letters xs))) \<longleftrightarrow> 0 < ok_count_spec xs l"
    unfolding keys_positive_def by (simp_all only: count_letters_counts)
qed

lemma problematic_iff:
  "l \<in> set (problematicLetters (analyzeResultsLocally rnd xs)) \<longleftrightarrow> 0 < error_count_spec xs l"
  by (simp add: analyze_letters set_sort_desc set_Object_keys count_letters_keys)

lemma strengths_iff:
  "l \<in> set (strengths (analyzeResultsLocally rnd xs)) \<longleftrightarrow>
     error_count_spec xs l \<le> ok_count_spec xs l \<and> 0 < ok_count_spec xs l"
  by (auto simp: analyze_letters set_sort_desc set_Object_keys count_letters_keys
      count_letters_counts)


text \<open>
  Claim C8. A letter is among the problematic letters exactly when its error count is
  positive, and among the strengths exactly when its ok count is positive and at least
  its error count. A letter with equal non-zero counts is in both lists; a letter in
  only one of the two lists has different counts. The counts of the specification are
  the counts the loop stores, and each list is in descending order of its count.
\<close>

theorem letters_and_strengths:
  "(l \<in> set (problematicLetters (analyzeResultsLocally rnd xs)) \<longleftrightarrow> 0 < error_count_spec xs l) \<and>
   (l \<in> set (strengths (analyzeResultsLocally rnd xs)) \<longleftrightarrow>
      error_count_spec xs l \<le> ok_count_spec xs l \<and> 0 < ok_count_spec xs l) \<and>
   (0 < error_count_spec xs l \<and> error_count_spec xs l = ok_count_spec xs l \<longrightarrow>
      l \<in> set (strengths (analyzeResultsLocally rnd xs)) \<and>
      l \<in> set (problematicLetters (analyzeResultsLocally rnd xs))) \<and>
   (l \<in> set (problematicLetters (analyzeResultsLocally rnd xs)) \<and>
    l \<notin> set (strengths (analyzeResultsLocally rnd xs)) \<longrightarrow>
      ok_count_spec xs l < error_count_spec xs l) \<and>
   (l \<in> set (strengths (analyzeResultsLocally rnd xs)) \<and>
    l \<notin> set (problematicLetters (analyzeResultsLocally rnd xs)) \<longrightarrow>
      error_count_spec xs l = 0 \<and> 0 < ok_count_spec xs l) \<and>
   count_of (fst (count_letters xs)) l = error_count_spec xs l \<and>
   count_of (fst (snd (count_letters xs))) l = ok_count_spec xs l \<and>
   sorted (map (\<lambda>c. - int (error_count_spec xs c)) (problematicLetters (analyzeResultsLocally rnd xs))) \<and>
   sorted (map (\<lambda>c. - int (ok_count_spec xs c)) (strengths (analyzeResultsLocally rnd xs)))"
proof -
  have s1: "sorted (map (\<lambda>c. - int (error_count_spec xs c)) (problematicLetters (analyzeResultsLocally rnd xs)))"
    using sorted_sort_desc [of "count_of (fst (count_letters xs))" "Object_keys (fst (count_letters xs))"]
    by (simp add: analyze_letters count_letters_counts)
  have s2: "sorted (map (\<lambda>c. - int (ok_count_spec xs c)) (strengths (analyzeResultsLocally rnd xs)))"
    using sorted_sort_desc [of "count_of (fst (snd (count_letters xs)))"]
    by (simp add: analyze_letters count_letters_counts)
  show ?thesis
    using s1 s2 by (auto simp: problematic_iff strengths_iff count_letters_counts)
qed

lemma sample_mixed_counts:
  "error_count_spec sample_mixed CHR ''a'' = 1" "ok_count_spec sample_mixed CHR ''a'' = 1"
  by code_simp+

text \<open>The theorem at the letter a of the word aab typed as abb.\<close>

theorem letters_and_strengths_witness:
  "0 < error_count_spec sample_mixed CHR ''a'' \<and>
   error_count_spec sample_mixed CHR ''a'' = ok_count_spec sample_mixed CHR ''a'' \<and>
   CHR ''a'' \<in> set (strengths (analyzeResultsLocally 0 sample_mixed)) \<and>
   CHR ''a'' \<in> set (problematicLetters (analyzeResultsLocally 0 sample_mixed))"
  using letters_and_strengths [of "CHR ''a''" 0 sample_mixed]
  by (simp add: sample_mixed_counts)

section \<open>Word selector: used words and problem letters\<close>

lemma all_words:
  "ALL_TYPING_WORDS =
     [''cat'', ''dog'', ''sun'', ''bed'', ''leg'', ''pie'', ''bee'', ''sea'', ''tea'', ''pea'',
      ''lip'', ''lid'', ''bib'', ''did'', ''dad'', ''bad'', ''pad'', ''lad'', ''bat'', ''pat'',
      ''tap'', ''nap'', ''pan'', ''man'', ''fan'', ''van'', ''jam'', ''yam'', ''sip'', ''tip'',
      ''dip'', ''pip'', ''rip'', ''zip'', ''mop'', ''pop'', ''bell'', ''dell'', ''pill'',
      ''bill'', ''peel'', ''deep'', ''beep'', ''peep'', ''pipe'', ''pale'', ''bale'', ''bail'',
      ''pail'', ''leap'', ''deal'', ''was'', ''saw'', ''no'', ''on'', ''top'', ''pot'',
      ''ten'', ''net'', ''thin'', ''chin'', ''ship'', ''shop'', ''cash'', ''dash'', ''wish'',
      ''fish'', ''mild'', ''wild'', ''kind'', ''mind'', ''bend'', ''lend'', ''send'', ''tend'',
      ''pedal'', ''piped'', ''biped'', ''belle'', ''bleed'', ''bled'', ''idle'', ''bide'',
      ''pile'', ''piled'', ''deli'', ''bead'', ''lied'', ''bile'', ''dared'', ''bread'',
      ''brand'', ''grand'', ''blend'', ''trend'', ''flipped'', ''dripped'', ''thick'',
      ''think'', ''thank'', ''chunk'', ''shrimp'', ''crash'', ''flash'', ''splash'', ''below'',
      ''elbow'', ''window'', ''yellow'', ''mirror'', ''pillow'', ''shadow'', ''follow'']"
  by code_simp

lemma all_words_distinct: "distinct ALL_TYPING_WORDS"
  unfolding all_words by code_simp

lemma all_words_lower: "list_all (\<lambda>w. toLowerCase w = w) ALL_TYPING_WORDS"
  unfolding all_words by code_simp

lemma tier_words_lower: "list_all (\<lambda>w. toLowerCase w = w) (TYPING_WORDS d)"
proof -
  have "list_all (\<lambda>w. toLowerCase w = w) (TYPING_WORDS easy)"
    "list_all (\<lambda>w. toLowerCase w = w) (TYPING_WORDS medium)"
    "list_all (\<lambda>w. toLowerCase w = w) (TYPING_WORDS hard)"
    by code_simp+
  then show ?thesis by (cases d) simp_all
qed

lemma all_words_set: "set ALL_TYPING_WORDS = (\<Union>d. set (TYPING_WORDS d))"
proof -
  have u: "(UNIV :: tier set) = {easy, medium, hard}" using tier.exhaust by auto
  have "set ALL_TYPING_WORDS =
          set (TYPING_WORDS easy) \<union> set (TYPING_WORDS medium) \<union> set (TYPING_WORDS hard)"
    unfolding all_words TYPING_WORDS_def by (simp add: insert_commute) 
  then show ?thesis unfolding u by auto
qed


lemma pickRandom_mem: "pickRandom rnd arr = Some w \<Longrightarrow> w \<in> set arr"
  by (auto simp: pickRandom_def Let_def split: if_splits)

lemma pickRandom_index:
  assumes "arr \<noteq> []" "0 \<le> rnd" "rnd \<le> 1 - 1 / 2 ^ 53"
  shows "\<exists>i<length arr. pickRandom rnd arr = Some (arr ! i) \<and>
           of_nat i \<le> to_double (rnd * of_nat (length arr)) \<and>
           to_double (rnd * of_nat (length arr)) < of_nat i + 1"
proof -
  define n :: rat where "n = of_nat (length arr)"
  define v where "v = to_double (rnd * n)"
  have npos: "0 < n" using assms(1) by (simp add: n_def)
  have v0: "0 \<le> v" unfolding v_def using assms(2) npos by (intro to_double_nonneg) simp
  have vn: "v < n"
  proof (cases "rnd = 0")
    case True
    then show ?thesis using npos by (simp add: v_def to_double_def)
  next
    case False
    define e :: rat where "e = 1 / 2 ^ 53"
    have e0: "0 < e" by (simp add: e_def)
    with assms(2) npos have x: "0 < rnd * n" using False by simp
    have r: "rnd \<le> 1 - e" using assms(3) by (simp add: e_def)
    have "\<bar>v - rnd * n\<bar> \<le> rnd * n / 2 ^ 53" unfolding v_def by (rule to_double_rel_err [OF x])
    then have "\<bar>v - rnd * n\<bar> \<le> rnd * n * e" by (simp add: e_def)
    then have "v \<le> rnd * n + rnd * n * e" by linarith
    also have "\<dots> = (rnd * n) * (1 + e)" by (simp add: algebra_simps)
    also have "\<dots> \<le> ((1 - e) * n) * (1 + e)"
      using r npos e0 by (intro mult_right_mono) simp_all
    also have "\<dots> = n - n * (e * e)" by (simp add: algebra_simps)
    also have "\<dots> < n" using npos e0 by simp
    finally show ?thesis .
  qed
  define i where "i = nat \<lfloor>v\<rfloor>"
  have f0: "0 \<le> \<lfloor>v\<rfloor>" using v0 by simp
  have lt: "\<lfloor>v\<rfloor> < int (length arr)"
  proof -
    have "of_int \<lfloor>v\<rfloor> \<le> v" by simp
    with vn have "(of_int \<lfloor>v\<rfloor> :: rat) < n" by linarith
    also have "n = of_int (int (length arr))" by (simp add: n_def)
    finally show ?thesis by (simp only: of_int_less_iff)
  qed
  from f0 lt have il: "i < length arr" unfolding i_def by linarith
  from f0 lt have c: "0 \<le> \<lfloor>v\<rfloor> \<and> \<lfloor>v\<rfloor> < int (length arr)" by blast
  have "(if 0 \<le> \<lfloor>v\<rfloor> \<and> \<lfloor>v\<rfloor> < int (length arr) then Some (arr ! nat \<lfloor>v\<rfloor>) else None)
          = Some (arr ! nat \<lfloor>v\<rfloor>)"
    using c by (rule if_P)
  then have pick: "pickRandom rnd arr = Some (arr ! i)"
    unfolding pickRandom_def Math_floor_def dmul_def Let_def i_def v_def n_def .
  have "of_nat i = (of_int \<lfloor>v\<rfloor> :: rat)" using f0 unfolding i_def by (simp del: zero_le_floor)
  moreover have "of_int \<lfloor>v\<rfloor> \<le> v" "v < of_int \<lfloor>v\<rfloor> + 1" by linarith+
  ultimately have "of_nat i \<le> v" "v < of_nat i + 1" by linarith+
  with il pick show ?thesis unfolding v_def n_def by blast
qed

lemma targeted_subset_find:
  "targeted_subset candidates ls =
     map_option (\<lambda>l. filter (\<lambda>w. l \<in> set w) candidates)
       (find (\<lambda>l. filter (\<lambda>w. l \<in> set w) candidates \<noteq> []) ls)"
  by (induction ls) (simp_all add: Let_def)

lemma targeted_subset_Some:
  "targeted_subset candidates ls = Some s \<Longrightarrow> s \<noteq> [] \<and> set s \<subseteq> set candidates"
  by (induction ls) (auto simp: Let_def split: if_splits)

lemma choose_unfold:
  "chooseNextWordWithDifficulty rnd (Attempts h) (Some usedWords) req =
     Inr (if candidate_pool h usedWords req = [] then pickRandom rnd ALL_TYPING_WORDS
          else case targeted_subset (candidate_pool h usedWords req) (take 3 (focus_letters h)) of
                 Some s \<Rightarrow> pickRandom rnd s
               | None \<Rightarrow> pickRandom rnd (candidate_pool h usedWords req))"
  by (cases req)
     (simp_all add: chooseNextWordWithDifficulty_def estimator_dyn_Attempts objects_Some
        unused_words_def candidate_pool_def selector_difficulty_def focus_letters_def Let_def
        split: option.splits)

lemma choose_narrowed:
  "(case targeted_subset pool ls of Some s \<Rightarrow> pickRandom rnd s | None \<Rightarrow> pickRandom rnd pool)
     = pickRandom rnd (case find (\<lambda>l. filter (\<lambda>w. l \<in> set w) pool \<noteq> []) ls of
                         Some l \<Rightarrow> filter (\<lambda>w. l \<in> set w) pool
                       | None \<Rightarrow> pool)"
  by (simp add: targeted_subset_find split: option.splits)

lemma narrowed_pool:
  "pool \<noteq> [] \<Longrightarrow>
   (case find (\<lambda>l. filter (\<lambda>w. l \<in> set w) pool \<noteq> []) ls of
      Some l \<Rightarrow> filter (\<lambda>w. l \<in> set w) pool | None \<Rightarrow> pool) \<noteq> [] \<and>
   set (case find (\<lambda>l. filter (\<lambda>w. l \<in> set w) pool \<noteq> []) ls of
      Some l \<Rightarrow> filter (\<lambda>w. l \<in> set w) pool | None \<Rightarrow> pool) \<subseteq> set pool"
  by (auto split: option.splits dest: find_Some_iff [THEN iffD1])

lemma unused_words_lower:
  "list_all (\<lambda>w. toLowerCase w = w) ws \<Longrightarrow> w \<in> set (unused_words usedWords ws) \<Longrightarrow>
     toLowerCase w \<notin> toLowerCase ` set usedWords"
  by (auto simp: unused_words_def list_all_iff)

lemma unused_words_empty:
  "unused_words usedWords ws = [] \<Longrightarrow> set ws \<subseteq> toLowerCase ` set usedWords"
  by (auto simp: unused_words_def filter_empty_conv)

lemma candidate_pool_cases:
  "unused_words usedWords (TYPING_WORDS (selector_difficulty h req)) \<noteq> [] \<Longrightarrow>
     candidate_pool h usedWords req = unused_words usedWords (TYPING_WORDS (selector_difficulty h req))"
  "unused_words usedWords (TYPING_WORDS (selector_difficulty h req)) = [] \<Longrightarrow>
     candidate_pool h usedWords req = unused_words usedWords ALL_TYPING_WORDS"
  by (simp_all add: candidate_pool_def Let_def)

lemma candidate_pool_lower:
  "w \<in> set (candidate_pool h usedWords req) \<Longrightarrow> toLowerCase w \<notin> toLowerCase ` set usedWords"
  using unused_words_lower [OF tier_words_lower] unused_words_lower [OF all_words_lower]
  by (cases "unused_words usedWords (TYPING_WORDS (selector_difficulty h req)) = []")
     (auto simp: candidate_pool_cases)

lemma choose_from_pool:
  assumes "candidate_pool h usedWords req \<noteq> []"
    "chooseNextWordWithDifficulty rnd (Attempts h) (Some usedWords) req = Inr (Some w)"
  shows "w \<in> set (candidate_pool h usedWords req)"
proof -
  from assms have "pickRandom rnd
     (case find (\<lambda>l. filter (\<lambda>w. l \<in> set w) (candidate_pool h usedWords req) \<noteq> [])
             (take 3 (focus_letters h)) of
        Some l \<Rightarrow> filter (\<lambda>w. l \<in> set w) (candidate_pool h usedWords req)
      | None \<Rightarrow> candidate_pool h usedWords req) = Some w"
    by (simp add: choose_unfold choose_narrowed)
  from pickRandom_mem [OF this] narrowed_pool [OF assms(1)] show ?thesis by blast
qed

lemma keys_obj_put_list:
  "map fst (obj_put k v ob) = (if k \<in> fst ` set ob then map fst ob else map fst ob @ [k])"
  by (induction k v ob rule: obj_put.induct) (auto simp: image_iff)

lemma distinct_obj_add: "distinct (map fst ob) \<Longrightarrow> distinct (map fst (obj_add k w ob))"
  by (simp add: obj_add_def keys_obj_put_list)

lemma score_step:
  "count_of ((\<lambda>sc (t, u). case t of None \<Rightarrow> sc
                | Some c \<Rightarrow> if t \<noteq> u then obj_add c w sc else sc) sc p) l
     = count_of sc l + w * (if fst p = Some l \<and> snd p \<noteq> Some l then 1 else 0)"
  by (cases p; cases "fst p") (auto simp: count_of_obj_add)

lemma score_positions_count:
  "count_of (score_positions w ps sc) l =
     count_of sc l + w * length (filter (\<lambda>(t, u). t = Some l \<and> u \<noteq> Some l) ps)"
  unfolding score_positions_def
proof (induction ps arbitrary: sc)
  case Nil
  then show ?case by simp
next
  case (Cons p ps)
  show ?case
    by (simp only: foldl_Cons Cons.IH score_step)
       (simp add: case_prod_beta algebra_simps)
qed

lemma score_positions_keys:
  "keys_positive sc \<Longrightarrow> 0 < w \<Longrightarrow> keys_positive (score_positions w ps sc)"
  unfolding score_positions_def
proof (induction ps arbitrary: sc)
  case Nil
  then show ?case by simp
next
  case (Cons p ps)
  obtain t u where p: "p = (t, u)" by (cases p)
  have "keys_positive (case t of None \<Rightarrow> sc | Some c \<Rightarrow> if t \<noteq> u then obj_add c w sc else sc)"
    using Cons.prems by (cases t) (auto simp: keys_positive_add)
  from Cons.IH [OF this Cons.prems(2)] show ?case by (simp add: p)
qed

lemma score_positions_distinct:
  "distinct (map fst sc) \<Longrightarrow> distinct (map fst (score_positions w ps sc))"
  unfolding score_positions_def
proof (induction ps arbitrary: sc)
  case Nil
  then show ?case by simp
next
  case (Cons p ps)
  obtain t u where p: "p = (t, u)" by (cases p)
  have "distinct (map fst (case t of None \<Rightarrow> sc | Some c \<Rightarrow> if t \<noteq> u then obj_add c w sc else sc))"
    using Cons.prems by (cases t) (auto simp: distinct_obj_add)
  from Cons.IH [OF this] show ?case by (simp add: p)
qed

lemma score_attempt_count:
  "count_of (score_attempt n acc (i, a)) l =
     count_of acc l +
     (if correct a then 0
      else (if n \<le> i + 3 then 2 else 1)
           * length (filter (\<lambda>(t, u). t = Some l \<and> u \<noteq> Some l)
                       (align (toLowerCase (word a)) (toLowerCase (input a)))))"
proof -
  have w: "(int n - 3 \<le> int i) = (n \<le> i + 3)" by linarith
  show ?thesis by (simp add: score_attempt_def Let_def score_positions_count w)
qed

lemma score_attempt_inv:
  "keys_positive acc \<Longrightarrow> keys_positive (score_attempt n acc (i, a))"
  "distinct (map fst acc) \<Longrightarrow> distinct (map fst (score_attempt n acc (i, a)))"
  by (simp_all add: score_attempt_def Let_def score_positions_keys score_positions_distinct)

lemma scores_fold:
  "count_of (foldl (score_attempt n) acc (enumerate k xs)) l
   = count_of acc l +
     sum_list (map (\<lambda>(i, a).
                 if correct a then 0
                 else (if n \<le> i + 3 then 2 else 1)
                      * length (filter (\<lambda>(t, u). t = Some l \<and> u \<noteq> Some l)
                                  (align (toLowerCase (word a)) (toLowerCase (input a)))))
            (enumerate k xs))"
proof (induction xs arbitrary: acc k)
  case Nil
  then show ?case by simp
next
  case (Cons x xs)
  show ?case
    by (simp only: enumerate_simps foldl_Cons Cons.IH score_attempt_count)
       simp
qed

lemma scores_fold_inv:
  "keys_positive acc \<Longrightarrow> keys_positive (foldl (score_attempt n) acc (enumerate k xs))"
  "distinct (map fst acc) \<Longrightarrow> distinct (map fst (foldl (score_attempt n) acc (enumerate k xs)))"
  by (induction xs arbitrary: acc k) (simp_all add: score_attempt_inv)

lemma scores_count: "count_of (getProblemLetterScores h) l = letter_score_spec h l"
  unfolding getProblemLetterScores_def letter_score_spec_def Let_def scores_fold
  by (simp add: count_of_def)

lemma scores_inv:
  "keys_positive (getProblemLetterScores h)" "distinct (map fst (getProblemLetterScores h))"
  unfolding getProblemLetterScores_def Let_def
  by (rule scores_fold_inv; simp add: keys_positive_empty)+

lemma distinct_Object_keys: "distinct (map fst ob) \<Longrightarrow> distinct (Object_keys ob)"
proof -
  assume d: "distinct (map fst ob)"
  then have dx: "distinct ob" and inj: "inj_on fst (set ob)" by (simp_all add: distinct_map)
  have "distinct (Object_entries ob)"
    unfolding Object_entries_def using dx by auto
  moreover have "inj_on fst (set (Object_entries ob))"
    using inj by (simp add: set_Object_entries)
  ultimately show ?thesis by (simp add: Object_keys_def distinct_map)
qed

lemma focus_letters:
  "set (sort_desc (count_of (getProblemLetterScores h)) (Object_keys (getProblemLetterScores h)))
     = {l. 0 < letter_score_spec h l}"
  "distinct (sort_desc (count_of (getProblemLetterScores h)) (Object_keys (getProblemLetterScores h)))"
  "sorted (map (\<lambda>l. - int (letter_score_spec h l))
     (sort_desc (count_of (getProblemLetterScores h)) (Object_keys (getProblemLetterScores h))))"
proof -
  show "set (sort_desc (count_of (getProblemLetterScores h)) (Object_keys (getProblemLetterScores h)))
     = {l. 0 < letter_score_spec h l}"
    using scores_inv(1) [of h]
    by (auto simp: set_sort_desc set_Object_keys keys_positive_def scores_count)
  show "distinct (sort_desc (count_of (getProblemLetterScores h)) (Object_keys (getProblemLetterScores h)))"
    using distinct_Object_keys [OF scores_inv(2) [of h]] by (simp add: sort_desc_def)
  show "sorted (map (\<lambda>l. - int (letter_score_spec h l))
     (sort_desc (count_of (getProblemLetterScores h)) (Object_keys (getProblemLetterScores h))))"
    using sorted_sort_desc [of "count_of (getProblemLetterScores h)"]
    by (simp add: scores_count)
qed


text \<open>
  Claim C3. Whatever the history, the used words and the requested tier, a word the
  selector returns is not among the used words, compared without regard to case, unless
  the used words cover the whole word bank. While the tier has unused words the word
  is one of them; when it has none the word is an unused word of the deduplicated
  bank; only when that is empty too is it a pick from the whole bank. A word is
  returned for every value \<^verbatim>\<open>Math.random()\<close> can take.
\<close>

theorem selector_avoids_used_words:
  "(chooseNextWordWithDifficulty rnd (Attempts h) (Some usedWords) req = Inr (Some w) \<longrightarrow>
      toLowerCase w \<notin> toLowerCase ` set usedWords \<or>
      set ALL_TYPING_WORDS \<subseteq> toLowerCase ` set usedWords) \<and>
   (unused_words usedWords (TYPING_WORDS (selector_difficulty h req)) \<noteq> [] \<and>
    chooseNextWordWithDifficulty rnd (Attempts h) (Some usedWords) req = Inr (Some w) \<longrightarrow>
      w \<in> set (unused_words usedWords (TYPING_WORDS (selector_difficulty h req)))) \<and>
   (unused_words usedWords (TYPING_WORDS (selector_difficulty h req)) = [] \<and>
    unused_words usedWords ALL_TYPING_WORDS \<noteq> [] \<and>
    chooseNextWordWithDifficulty rnd (Attempts h) (Some usedWords) req = Inr (Some w) \<longrightarrow>
      w \<in> set (unused_words usedWords ALL_TYPING_WORDS)) \<and>
   (unused_words usedWords (TYPING_WORDS (selector_difficulty h req)) = [] \<and>
    unused_words usedWords ALL_TYPING_WORDS = [] \<longrightarrow>
      chooseNextWordWithDifficulty rnd (Attempts h) (Some usedWords) req
        = Inr (pickRandom rnd ALL_TYPING_WORDS) \<and>
      set ALL_TYPING_WORDS \<subseteq> toLowerCase ` set usedWords) \<and>
   (0 \<le> rnd \<and> rnd \<le> 1 - 1 / 2 ^ 53 \<longrightarrow>
      (\<exists>v. chooseNextWordWithDifficulty rnd (Attempts h) (Some usedWords) req = Inr (Some v))) \<and>
   distinct ALL_TYPING_WORDS \<and>
   set ALL_TYPING_WORDS = (\<Union>d. set (TYPING_WORDS d))"
proof (intro conjI impI)
  assume r: "chooseNextWordWithDifficulty rnd (Attempts h) (Some usedWords) req = Inr (Some w)"
  show "toLowerCase w \<notin> toLowerCase ` set usedWords \<or>
      set ALL_TYPING_WORDS \<subseteq> toLowerCase ` set usedWords"
  proof (cases "candidate_pool h usedWords req = []")
    case True
    then have "unused_words usedWords ALL_TYPING_WORDS = []"
      by (simp add: candidate_pool_def Let_def split: if_splits)
    then show ?thesis using unused_words_empty by blast
  next
    case False
    from choose_from_pool [OF False r] show ?thesis using candidate_pool_lower by blast
  qed
next
  assume a: "unused_words usedWords (TYPING_WORDS (selector_difficulty h req)) \<noteq> [] \<and>
    chooseNextWordWithDifficulty rnd (Attempts h) (Some usedWords) req = Inr (Some w)"
  then have p: "candidate_pool h usedWords req
      = unused_words usedWords (TYPING_WORDS (selector_difficulty h req))"
    by (simp add: candidate_pool_cases)
  with a choose_from_pool [of h usedWords req rnd w]
  show "w \<in> set (unused_words usedWords (TYPING_WORDS (selector_difficulty h req)))" by simp
next
  assume a: "unused_words usedWords (TYPING_WORDS (selector_difficulty h req)) = [] \<and>
    unused_words usedWords ALL_TYPING_WORDS \<noteq> [] \<and>
    chooseNextWordWithDifficulty rnd (Attempts h) (Some usedWords) req = Inr (Some w)"
  then have p: "candidate_pool h usedWords req = unused_words usedWords ALL_TYPING_WORDS"
    by (simp add: candidate_pool_cases)
  with a choose_from_pool [of h usedWords req rnd w]
  show "w \<in> set (unused_words usedWords ALL_TYPING_WORDS)" by simp
next
  assume a: "unused_words usedWords (TYPING_WORDS (selector_difficulty h req)) = [] \<and>
    unused_words usedWords ALL_TYPING_WORDS = []"
  then have p: "candidate_pool h usedWords req = []" by (simp add: candidate_pool_cases)
  then show "chooseNextWordWithDifficulty rnd (Attempts h) (Some usedWords) req
        = Inr (pickRandom rnd ALL_TYPING_WORDS)"
    by (simp add: choose_unfold)
  from a show "set ALL_TYPING_WORDS \<subseteq> toLowerCase ` set usedWords"
    using unused_words_empty by blast
next
  assume rnd: "0 \<le> rnd \<and> rnd \<le> 1 - 1 / 2 ^ 53"
  have ne: "ALL_TYPING_WORDS \<noteq> []" unfolding all_words by simp
  show "\<exists>v. chooseNextWordWithDifficulty rnd (Attempts h) (Some usedWords) req = Inr (Some v)"
  proof (cases "candidate_pool h usedWords req = []")
    case True
    with pickRandom_index [OF ne] rnd show ?thesis by (auto simp: choose_unfold)
  next
    case False
    from narrowed_pool [OF False] pickRandom_index rnd
    show ?thesis unfolding choose_unfold choose_narrowed using False by (simp, blast)
  qed
next
  show "distinct ALL_TYPING_WORDS" by (rule all_words_distinct)
  show "set ALL_TYPING_WORDS = (\<Union>d. set (TYPING_WORDS d))" by (rule all_words_set)
qed


lemma choose_dog:
  "chooseNextWordWithDifficulty 0 (Attempts zip_history) (Some [''Zip'', ''CAT'']) (Some easy)
     = Inr (Some ''dog'')"
  by code_simp

text \<open>The theorem at the used words Zip and CAT in the easy tier.\<close>

theorem selector_avoids_used_words_witness:
  "chooseNextWordWithDifficulty 0 (Attempts zip_history) (Some [''Zip'', ''CAT'']) (Some easy)
     = Inr (Some ''dog'') \<and>
   toLowerCase ''dog'' \<notin> toLowerCase ` set [''Zip'', ''CAT''] \<and>
   ''dog'' \<in> set (unused_words [''Zip'', ''CAT''] (TYPING_WORDS (selector_difficulty zip_history (Some easy))))"
proof -
  have e: "unused_words [''Zip'', ''CAT''] (TYPING_WORDS (selector_difficulty zip_history (Some easy))) \<noteq> []"
    by code_simp
  have n: "\<not> set ALL_TYPING_WORDS \<subseteq> toLowerCase ` set [''Zip'', ''CAT'']"
    unfolding all_words by code_simp
  from selector_avoids_used_words [of 0 zip_history "[''Zip'', ''CAT'']" "Some easy" "''dog''"]
    choose_dog e n
  show ?thesis by blast
qed

lemma bank_exhausted:
  "candidate_pool h ALL_TYPING_WORDS req = []"
proof -
  have m: "map toLowerCase ALL_TYPING_WORDS = ALL_TYPING_WORDS"
    using all_words_lower by (simp add: list_all_iff map_idI)
  have "set (TYPING_WORDS (selector_difficulty h req)) \<subseteq> set ALL_TYPING_WORDS"
    unfolding all_words_set by blast
  then show ?thesis
    by (auto simp: candidate_pool_def unused_words_def m Let_def filter_empty_conv)
qed

lemma zip_facts:
  "take 3 (focus_letters zip_history) = ''z''"
  "pickRandom 0 [''zip''] = Some ''zip''"
  by code_simp+

lemma zip_words: "filter (\<lambda>w. CHR ''z'' \<in> set w) ALL_TYPING_WORDS = [''zip'']"
  unfolding all_words by simp

lemma pick_first: "pickRandom 0 (x # xs) = Some x"
  by (simp add: pickRandom_def Math_floor_def dmul_def to_double_def)

text \<open>
  Claim C4 as stated fails where every word of the bank is used: the pool of unused
  words is empty, the selector returns at once a pick from the whole bank and does not
  narrow it. With the one problem letter z the narrowed bank is the single word zip,
  and the selector returns cat.
\<close>

theorem ultimate_fallback_not_narrowed:
  "candidate_pool zip_history ALL_TYPING_WORDS (Some easy) = [] \<and>
   take 3 (focus_letters zip_history) = ''z'' \<and>
   filter (\<lambda>w. CHR ''z'' \<in> set w) ALL_TYPING_WORDS = [''zip''] \<and>
   pickRandom 0 (filter (\<lambda>w. CHR ''z'' \<in> set w) ALL_TYPING_WORDS) = Some ''zip'' \<and>
   chooseNextWordWithDifficulty 0 (Attempts zip_history) (Some ALL_TYPING_WORDS) (Some easy)
     = Inr (Some ''cat'') \<and>
   chooseNextWordWithDifficulty 0 (Attempts zip_history) (Some ALL_TYPING_WORDS) (Some easy)
     \<noteq> Inr (pickRandom 0 (filter (\<lambda>w. CHR ''z'' \<in> set w) ALL_TYPING_WORDS))"
proof -
  have "pickRandom 0 ALL_TYPING_WORDS = Some ''cat''"
    unfolding all_words by (rule pick_first)
  then have "chooseNextWordWithDifficulty 0 (Attempts zip_history) (Some ALL_TYPING_WORDS) (Some easy)
     = Inr (Some ''cat'')"
    by (simp add: choose_unfold bank_exhausted)
  then show ?thesis by (simp add: bank_exhausted zip_facts zip_words)
qed

text \<open>
  Claim C4, amended. The table of scores is the score of the specification: incorrect
  attempts only, positions aligned up to the longer string, no score where the target
  is blank, weight 2 for the last three attempts and 1 otherwise. The focus letters are
  the letters with a positive score, each once, in descending order of score. While the
  pool of unused words (of the tier, or else of the bank) is not empty, the result is
  the pick from the pool narrowed to the first of the top three focus letters that some
  word of the pool contains, and from the whole pool when there is no such letter; when
  the pool is empty the result is the pick from the whole bank, not narrowed. A pick
  from a non-empty list is its element at the integer part of the rounded product of
  the random value with the length. The alignment of two strings has the length of the
  longer one and pairs the characters at each position, a blank where a string has
  ended.
\<close>

theorem selector_targets_problem_letters:
  "count_of (getProblemLetterScores h) l = letter_score_spec h l \<and>
   set (focus_letters h) = {c. 0 < letter_score_spec h c} \<and>
   distinct (focus_letters h) \<and>
   sorted (map (\<lambda>c. - int (letter_score_spec h c)) (focus_letters h)) \<and>
   (candidate_pool h usedWords req \<noteq> [] \<longrightarrow>
      chooseNextWordWithDifficulty rnd (Attempts h) (Some usedWords) req
        = Inr (pickRandom rnd
            (case find (\<lambda>c. filter (\<lambda>w. c \<in> set w) (candidate_pool h usedWords req) \<noteq> [])
                    (take 3 (focus_letters h)) of
               Some c \<Rightarrow> filter (\<lambda>w. c \<in> set w) (candidate_pool h usedWords req)
             | None \<Rightarrow> candidate_pool h usedWords req))) \<and>
   (candidate_pool h usedWords req = [] \<longrightarrow>
      chooseNextWordWithDifficulty rnd (Attempts h) (Some usedWords) req
        = Inr (pickRandom rnd ALL_TYPING_WORDS)) \<and>
   (arr \<noteq> [] \<and> 0 \<le> rnd \<and> rnd \<le> 1 - 1 / 2 ^ 53 \<longrightarrow>
      (\<exists>i<length arr. pickRandom rnd arr = Some (arr ! i) \<and>
         of_nat i \<le> to_double (rnd * of_nat (length arr)) \<and>
         to_double (rnd * of_nat (length arr)) < of_nat i + 1)) \<and>
   length (align t u) = max (length t) (length u) \<and>
   (j < max (length t) (length u) \<longrightarrow>
      align t u ! j = (if j < length t then Some (t ! j) else None,
                       if j < length u then Some (u ! j) else None))"
proof (intro conjI impI)
  show "count_of (getProblemLetterScores h) l = letter_score_spec h l" by (rule scores_count)
  show "set (focus_letters h) = {c. 0 < letter_score_spec h c}"
    unfolding focus_letters_def by (rule focus_letters(1))
  show "distinct (focus_letters h)" unfolding focus_letters_def by (rule focus_letters(2))
  show "sorted (map (\<lambda>c. - int (letter_score_spec h c)) (focus_letters h))"
    unfolding focus_letters_def by (rule focus_letters(3))
next
  assume "candidate_pool h usedWords req \<noteq> []"
  then show "chooseNextWordWithDifficulty rnd (Attempts h) (Some usedWords) req
        = Inr (pickRandom rnd
            (case find (\<lambda>c. filter (\<lambda>w. c \<in> set w) (candidate_pool h usedWords req) \<noteq> [])
                    (take 3 (focus_letters h)) of
               Some c \<Rightarrow> filter (\<lambda>w. c \<in> set w) (candidate_pool h usedWords req)
             | None \<Rightarrow> candidate_pool h usedWords req))"
    by (simp add: choose_unfold choose_narrowed)
next
  assume "candidate_pool h usedWords req = []"
  then show "chooseNextWordWithDifficulty rnd (Attempts h) (Some usedWords) req
        = Inr (pickRandom rnd ALL_TYPING_WORDS)"
    by (simp add: choose_unfold)
next
  assume "arr \<noteq> [] \<and> 0 \<le> rnd \<and> rnd \<le> 1 - 1 / 2 ^ 53"
  then show "\<exists>i<length arr. pickRandom rnd arr = Some (arr ! i) \<and>
         of_nat i \<le> to_double (rnd * of_nat (length arr)) \<and>
         to_double (rnd * of_nat (length arr)) < of_nat i + 1"
    using pickRandom_index [of arr rnd] by blast
next
  show "length (align t u) = max (length t) (length u)" by (rule align_length)
next
  assume "j < max (length t) (length u)"
  then show "align t u ! j = (if j < length t then Some (t ! j) else None,
                       if j < length u then Some (u ! j) else None)"
    by (rule align_nth)
qed

text \<open>The theorem at the word dog typed as bog, no used word, the easy tier.\<close>

theorem selector_targets_problem_letters_witness:
  "candidate_pool dog_history [] (Some easy) \<noteq> [] \<and>
   letter_score_spec dog_history CHR ''d'' = 2 \<and>
   take 3 (focus_letters dog_history) = ''d'' \<and>
   filter (\<lambda>w. CHR ''d'' \<in> set w) (candidate_pool dog_history [] (Some easy))
     = [''dog'', ''bed'', ''lid'', ''did'', ''dad'', ''bad'', ''pad'', ''lad'', ''dip''] \<and>
   chooseNextWordWithDifficulty (1/2) (Attempts dog_history) (Some []) (Some easy)
     = Inr (Some ''dad'')"
proof -
  have e: "candidate_pool dog_history [] (Some easy) \<noteq> []"
    "letter_score_spec dog_history CHR ''d'' = 2"
    "take 3 (focus_letters dog_history) = ''d''"
    "filter (\<lambda>w. CHR ''d'' \<in> set w) (candidate_pool dog_history [] (Some easy))
     = [''dog'', ''bed'', ''lid'', ''did'', ''dad'', ''bad'', ''pad'', ''lad'', ''dip'']"
    by code_simp+
  have p: "pickRandom (1/2) [''dog'', ''bed'', ''lid'', ''did'', ''dad'', ''bad'', ''pad'', ''lad'', ''dip'']
     = Some ''dad''" by code_simp
  from selector_targets_problem_letters [of dog_history "CHR ''d''" "[]" "Some easy" "1/2" "[]"] e(1)
  have "chooseNextWordWithDifficulty (1/2) (Attempts dog_history) (Some []) (Some easy)
        = Inr (pickRandom (1/2)
            (case find (\<lambda>c. filter (\<lambda>w. c \<in> set w) (candidate_pool dog_history [] (Some easy)) \<noteq> [])
                    (take 3 (focus_letters dog_history)) of
               Some c \<Rightarrow> filter (\<lambda>w. c \<in> set w) (candidate_pool dog_history [] (Some easy))
             | None \<Rightarrow> candidate_pool dog_history [] (Some easy)))"
    by blast
  also have "\<dots> = Inr (Some ''dad'')"
    unfolding e(3) by (simp add: e(4) p)
  finally show ?thesis using e by simp
qed

end
